theory Spec2Isabelle
  imports Complex_Main
begin

section \<open>Tensors and failures\<close>

text \<open>
  The module \<^verbatim>\<open>gpflow/mean_functions.py\<close> builds every result with operations of the
  tensor engine (TensorFlow) and of NumPy, which are not part of the module: they are
  modelled here from their documentation. A tensor is modelled as the engine stores it:
  its shape and its elements in row-major order.

  The evaluation function \<open>call\<close> of this theory works on tensors of the floating type
  \<^verbatim>\<open>settings.float_type\<close>, whose elements it takes as real numbers (no rounding, no
  NaN); labels and indices (int32 tensors) are integers. It is used for what does not
  depend on the rounding of the engine: shapes, rows, the routing of rows to children.
  What the engine computes in its own arithmetic, and what it does with operands of
  different dtypes, is the subject of the section on the engine's arithmetic and
  dtypes: there the arithmetic is a parameter and every tensor carries its dtype.
\<close>

datatype 'a tensor = Tensor (shape: "nat list") (elems: "'a list")

definition wf_tensor :: "'a tensor \<Rightarrow> bool" where
  "wf_tensor t \<longleftrightarrow> length (elems t) = prod_list (shape t)"

text \<open>
  Every \<^verbatim>\<open>raise\<close> of the module and every failure of an engine operation is a value.
  \<open>ShapeMismatch\<close>: shapes or ranks that an operation does not accept;
  \<open>IndexOutOfRange\<close>: an index or a partition label outside its range (the engine's
  CPU kernels refuse it);
  \<open>InvalidArgument\<close>: another refused argument (a negative size, no partition);
  \<open>Unsupported\<close>: an input on which the engine's result is not fixed by its
  documentation (the product of tensors of rank above 2, whose rule changed between
  releases; a cast beyond the int32 range; a stitched slice that no index names). The
  theorems of the claims are about inputs on which it does not arise.
  \<open>TypeError\<close>: operands of different dtypes given to an operation of the engine.
\<close>

datatype error =
    NotImplementedError string
  | ValueError string
  | TypeError
  | ShapeMismatch
  | IndexOutOfRange
  | InvalidArgument
  | Unsupported

text \<open>
  \<open>and_then r f\<close>: the value of \<open>r\<close> handed to \<open>f\<close>, or the error of \<open>r\<close>: an exception
  ends the evaluation. \<open>sequence\<close>: the values of a list of results in order, or the
  first error.
\<close>

definition and_then :: "error + 'a \<Rightarrow> ('a \<Rightarrow> error + 'b) \<Rightarrow> error + 'b" where
  "and_then r f = (case r of Inl e \<Rightarrow> Inl e | Inr v \<Rightarrow> f v)"

fun sequence :: "(error + 'a) list \<Rightarrow> error + 'a list" where
  "sequence [] = Inr []"
| "sequence (r # rs) = and_then r (\<lambda>v. and_then (sequence rs) (\<lambda>vs. Inr (v # vs)))"

text \<open>\<open>chop n k xs\<close>: the first \<open>n\<close> consecutive pieces of length \<open>k\<close> of \<open>xs\<close>.\<close>

definition chop :: "nat \<Rightarrow> nat \<Rightarrow> 'a list \<Rightarrow> 'a list list" where
  "chop n k xs = map (\<lambda>i. take k (drop (i * k) xs)) [0..<n]"

text \<open>The slices of a tensor along its first axis (the rows of a matrix).\<close>

definition slices :: "'a tensor \<Rightarrow> 'a list list" where
  "slices t = chop (hd (shape t)) (prod_list (tl (shape t))) (elems t)"

text \<open>Entry \<open>(i, j)\<close> of a matrix, and row \<open>i\<close> of a matrix as a list.\<close>

definition entry :: "'a tensor \<Rightarrow> nat \<Rightarrow> nat \<Rightarrow> 'a" where
  "entry t i j = elems t ! (i * (shape t ! 1) + j)"

definition row :: "'a tensor \<Rightarrow> nat \<Rightarrow> 'a list" where
  "row t i = take (shape t ! 1) (drop (i * (shape t ! 1)) (elems t))"

section \<open>The operations of the tensor engine\<close>

text \<open>\<^verbatim>\<open>tf.shape(X)[k]\<close> and \<^verbatim>\<open>tf.size(X)\<close>.\<close>

definition tf_shape_at :: "'a tensor \<Rightarrow> nat \<Rightarrow> error + nat" where
  "tf_shape_at t k = (if k < length (shape t) then Inr (shape t ! k) else Inl IndexOutOfRange)"

definition tf_size :: "'a tensor \<Rightarrow> nat" where
  "tf_size t = prod_list (shape t)"

text \<open>\<^verbatim>\<open>tf.zeros(shape)\<close> and \<^verbatim>\<open>tf.eye(num_rows)\<close>; a negative size is refused.\<close>

definition tf_zeros :: "int list \<Rightarrow> error + real tensor" where
  "tf_zeros s =
     (if \<exists>d \<in> set s. d < 0 then Inl InvalidArgument
      else Inr (Tensor (map nat s) (replicate (prod_list (map nat s)) 0)))"

definition tf_eye :: "int \<Rightarrow> error + real tensor" where
  "tf_eye n =
     (if n < 0 then Inl InvalidArgument
      else Inr (Tensor [nat n, nat n]
             (concat (map (\<lambda>i. map (\<lambda>j. if i = j then 1 else 0) [0..<nat n]) [0..<nat n]))))"

text \<open>
  \<^verbatim>\<open>tf.tile(input, multiples)\<close>: \<open>multiples\<close> has one entry per axis of the input, which
  has rank 1 or more; axis \<open>k\<close> of the input is repeated \<open>multiples[k]\<close> times.
\<close>

fun tile_elems :: "nat list \<Rightarrow> nat list \<Rightarrow> 'a list \<Rightarrow> 'a list" where
  "tile_elems (d # ds) (m # ms) xs =
     concat (replicate m (concat (map (tile_elems ds ms) (chop d (prod_list ds) xs))))"
| "tile_elems _ _ xs = xs"

definition tf_tile :: "'a tensor \<Rightarrow> nat list \<Rightarrow> error + 'a tensor" where
  "tf_tile t ms =
     (if shape t = [] \<or> length ms \<noteq> length (shape t) then Inl ShapeMismatch
      else Inr (Tensor (map2 (*) (shape t) ms) (tile_elems (shape t) ms (elems t))))"

text \<open>
  \<^verbatim>\<open>tf.matmul(a, b)\<close> of two matrices: the inner dimensions must agree. An operand of
  rank below 2 is refused; the batched product of operands of higher rank is outside
  this model. Entry \<open>(i, j)\<close> of the product is the inner product of row \<open>i\<close> of \<open>a\<close> and
  column \<open>j\<close> of \<open>b\<close>. The engine computes it in its floating arithmetic, with its own
  rounding and its own order of summation: in \<open>tf_matmul_with\<close> the inner product is the
  parameter \<open>dot\<close>. \<open>exact_dot\<close> is the inner product without rounding, and \<open>tf_matmul\<close>
  the product of real matrices that \<open>call\<close> uses.
\<close>

definition column :: "'a tensor \<Rightarrow> nat \<Rightarrow> 'a list" where
  "column t j = map (\<lambda>k. entry t k j) [0..<shape t ! 0]"

definition tf_matmul_with ::
  "('a list \<Rightarrow> 'a list \<Rightarrow> 'a) \<Rightarrow> 'a tensor \<Rightarrow> 'a tensor \<Rightarrow> error + 'a tensor" where
  "tf_matmul_with dot a b =
     (if length (shape a) < 2 \<or> length (shape b) < 2 then Inl ShapeMismatch
      else if length (shape a) > 2 \<or> length (shape b) > 2 then Inl Unsupported
      else
        let n = shape a ! 0; d = shape a ! 1; q = shape b ! 1 in
        if d \<noteq> shape b ! 0 then Inl ShapeMismatch
        else Inr (Tensor [n, q]
               (concat (map (\<lambda>r. map (\<lambda>j. dot r (column b j)) [0..<q]) (chop n d (elems a))))))"

definition exact_dot :: "real list \<Rightarrow> real list \<Rightarrow> real" where
  "exact_dot r c = sum_list (map2 (*) r c)"

definition tf_matmul :: "real tensor \<Rightarrow> real tensor \<Rightarrow> error + real tensor" where
  "tf_matmul = tf_matmul_with exact_dot"

text \<open>
  Broadcasting, as \<^verbatim>\<open>tf.add\<close> and \<^verbatim>\<open>tf.multiply\<close> apply it: the shapes are aligned at
  their last axis; two dimensions are compatible when they are equal or one of them
  is 1, and an axis of size 1 is repeated. \<open>broadcast_dims\<close> works on the reversed
  shapes.
\<close>

fun broadcast_dims :: "nat list \<Rightarrow> nat list \<Rightarrow> nat list option" where
  "broadcast_dims [] ys = Some ys"
| "broadcast_dims xs [] = Some xs"
| "broadcast_dims (x # xs) (y # ys) =
     (if x = y \<or> y = 1 then map_option ((#) x) (broadcast_dims xs ys)
      else if x = 1 then map_option ((#) y) (broadcast_dims xs ys)
      else None)"

definition broadcast_shape :: "nat list \<Rightarrow> nat list \<Rightarrow> nat list option" where
  "broadcast_shape s t = map_option rev (broadcast_dims (rev s) (rev t))"

fun broadcast_elems :: "nat list \<Rightarrow> nat list \<Rightarrow> 'a list \<Rightarrow> 'a list" where
  "broadcast_elems (d # ds) (e # es) xs =
     (if d = e then concat (map (broadcast_elems ds es) (chop d (prod_list ds) xs))
      else concat (replicate e (broadcast_elems ds es xs)))"
| "broadcast_elems _ _ xs = xs"

definition broadcast_to :: "nat list \<Rightarrow> 'a tensor \<Rightarrow> 'a list" where
  "broadcast_to s t =
     broadcast_elems (replicate (length s - length (shape t)) 1 @ shape t) s (elems t)"

definition tf_elementwise ::
  "('a \<Rightarrow> 'a \<Rightarrow> 'a) \<Rightarrow> 'a tensor \<Rightarrow> 'a tensor \<Rightarrow> error + 'a tensor" where
  "tf_elementwise f a b =
     (case broadcast_shape (shape a) (shape b) of
        None \<Rightarrow> Inl ShapeMismatch
      | Some s \<Rightarrow> Inr (Tensor s (map2 f (broadcast_to s a) (broadcast_to s b))))"

definition tf_add :: "real tensor \<Rightarrow> real tensor \<Rightarrow> error + real tensor" where
  "tf_add = tf_elementwise (+)"

definition tf_multiply :: "real tensor \<Rightarrow> real tensor \<Rightarrow> error + real tensor" where
  "tf_multiply = tf_elementwise (*)"

text \<open>\<^verbatim>\<open>tf.transpose(a)\<close> without a permutation reverses the order of the axes.\<close>

fun transpose_elems :: "nat list \<Rightarrow> 'a list \<Rightarrow> 'a list" where
  "transpose_elems [] xs = xs"
| "transpose_elems (d # ds) xs =
     concat (transpose (map (transpose_elems ds) (chop d (prod_list ds) xs)))"

definition tf_transpose :: "'a tensor \<Rightarrow> 'a tensor" where
  "tf_transpose t = Tensor (rev (shape t)) (transpose_elems (shape t) (elems t))"

text \<open>
  \<^verbatim>\<open>tf.gather(params, indices)\<close> along the first axis: the result has the shape of
  \<open>indices\<close> followed by the shape of one slice of \<open>params\<close>; a scalar index is the
  tensor of shape \<open>[]\<close>. An index outside \<open>[0, params.shape[0])\<close> is refused.
\<close>

definition tf_gather :: "'a tensor \<Rightarrow> int tensor \<Rightarrow> error + 'a tensor" where
  "tf_gather params indices =
     (if shape params = [] then Inl ShapeMismatch
      else if \<exists>i \<in> set (elems indices). i < 0 \<or> int (hd (shape params)) \<le> i
        then Inl IndexOutOfRange
      else Inr (Tensor (shape indices @ tl (shape params))
             (concat (map (\<lambda>i. slices params ! nat i) (elems indices)))))"

text \<open>\<^verbatim>\<open>tf.range(start, limit)\<close> with step 1 requires \<open>start \<le> limit\<close>.\<close>

definition tf_range :: "int \<Rightarrow> int \<Rightarrow> error + int tensor" where
  "tf_range start limit =
     (if limit < start then Inl InvalidArgument
      else Inr (Tensor [nat (limit - start)] [start..limit - 1]))"

text \<open>
  \<^verbatim>\<open>tf.cast(x, tf.int32)\<close> of a floating tensor truncates towards zero; the result is
  not fixed for a value beyond the int32 range.
\<close>

definition truncate :: "real \<Rightarrow> int" where
  "truncate x = (if 0 \<le> x then \<lfloor>x\<rfloor> else \<lceil>x\<rceil>)"

definition tf_cast_int32 :: "real tensor \<Rightarrow> error + int tensor" where
  "tf_cast_int32 t =
     (if \<exists>x \<in> set (elems t). truncate x < - (2 ^ 31) \<or> 2 ^ 31 \<le> truncate x then Inl Unsupported
      else Inr (Tensor (shape t) (map truncate (elems t))))"

text \<open>
  \<^verbatim>\<open>tf.dynamic_partition(data, partitions, num_partitions)\<close>: the shape of \<open>partitions\<close>
  is a prefix of the shape of \<open>data\<close>, every entry of \<open>partitions\<close> lies in
  \<open>[0, num_partitions)\<close>, and output \<open>g\<close> holds the slices of \<open>data\<close> whose partition is
  \<open>g\<close>, in their order in \<open>data\<close>.
\<close>

definition tf_dynamic_partition ::
  "'a tensor \<Rightarrow> int tensor \<Rightarrow> nat \<Rightarrow> error + 'a tensor list" where
  "tf_dynamic_partition data_t partitions num_partitions =
     (if num_partitions < 1 then Inl InvalidArgument
      else if take (length (shape partitions)) (shape data_t) \<noteq> shape partitions
        then Inl ShapeMismatch
      else if \<exists>p \<in> set (elems partitions). p < 0 \<or> int num_partitions \<le> p
        then Inl IndexOutOfRange
      else
        let rest = drop (length (shape partitions)) (shape data_t);
            sl = chop (prod_list (shape partitions)) (prod_list rest) (elems data_t)
        in Inr (map (\<lambda>g.
                  let sel = map snd (filter (\<lambda>(p, s). p = int g) (zip (elems partitions) sl))
                  in Tensor (length sel # rest) (concat sel))
                [0..<num_partitions]))"

text \<open>
  \<^verbatim>\<open>tf.dynamic_stitch(indices, data)\<close>: the two lists have the same length, at least 1;
  the shape of \<open>data[m]\<close> is the shape of \<open>indices[m]\<close> followed by one shape common to
  all \<open>m\<close>; the result has \<open>max(indices) + 1\<close> slices, and its slice \<open>indices[m][i]\<close> is
  slice \<open>i\<close> of \<open>data[m]\<close> (the last such \<open>m, i\<close> when an index occurs twice). The content
  of a slice that no index names is not fixed.
\<close>

definition stitch_pairs :: "int tensor list \<Rightarrow> 'a tensor list \<Rightarrow> (int \<times> 'a list) list" where
  "stitch_pairs indices data_l =
     concat (map (\<lambda>(ix, d).
        zip (elems ix)
          (chop (prod_list (shape ix)) (prod_list (drop (length (shape ix)) (shape d))) (elems d)))
       (zip indices data_l))"

definition tf_dynamic_stitch :: "int tensor list \<Rightarrow> 'a tensor list \<Rightarrow> error + 'a tensor" where
  "tf_dynamic_stitch indices data_l =
     (if indices = [] \<or> length indices \<noteq> length data_l then Inl InvalidArgument
      else if \<exists>(ix, d) \<in> set (zip indices data_l). take (length (shape ix)) (shape d) \<noteq> shape ix
        then Inl ShapeMismatch
      else
        let rest = drop (length (shape (hd indices))) (shape (hd data_l)) in
        if \<exists>(ix, d) \<in> set (zip indices data_l). drop (length (shape ix)) (shape d) \<noteq> rest
          then Inl ShapeMismatch
        else if \<exists>ix \<in> set indices. \<exists>i \<in> set (elems ix). i < 0 then Inl IndexOutOfRange
        else
          let pairs = stitch_pairs indices data_l;
              n = nat (fold max (map fst pairs) (- 1) + 1);
              merged = map (\<lambda>j. map_of (rev pairs) (int j)) [0..<n]
          in if None \<in> set merged then Inl Unsupported
             else Inr (Tensor (n # rest) (concat (map the merged))))"

text \<open>\<^verbatim>\<open>np.atleast_2d\<close> and \<^verbatim>\<open>np.reshape(c, (1, -1))\<close>.\<close>

definition np_atleast_2d :: "'a tensor \<Rightarrow> 'a tensor" where
  "np_atleast_2d t =
     (case shape t of
        [] \<Rightarrow> Tensor [1, 1] (elems t)
      | [n] \<Rightarrow> Tensor [1, n] (elems t)
      | _ \<Rightarrow> t)"

definition np_reshape_row :: "'a tensor \<Rightarrow> 'a tensor" where
  "np_reshape_row t = Tensor [1, prod_list (shape t)] (elems t)"

section \<open>The mean functions\<close>

text \<open>
  One constructor for each class of the module, holding the attributes that the class
  stores: \<open>Linear A b\<close> its two parameters, \<open>Identity input_dim\<close>, \<open>Constant c\<close> the
  parameter as stored (a row), \<open>Zero output_dim\<close>, \<open>SwitchedMeanFunction\<close> the list of
  its children, \<open>Additive\<close> and \<open>Product\<close> their two parts in the order given. The
  assertions of the constructors (every child is a \<open>MeanFunction\<close>) are the types of the
  constructors' arguments.

  Modelled from the spec: the parameter framework (\<^verbatim>\<open>Parameter\<close>, \<^verbatim>\<open>ParamList\<close>,
  \<^verbatim>\<open>params_as_tensors\<close>) is not part of the module. As the spec describes it, a
  parameter is its current tensor value, a \<^verbatim>\<open>ParamList\<close> is the ordered list of its
  members, and in a method under \<^verbatim>\<open>params_as_tensors\<close> an attribute reads as that tensor.
\<close>

datatype meanfunction =
    MeanFunction
  | Linear "real tensor" "real tensor"
  | Identity (input_dim: "int option")
  | Constant "real tensor"
  | Zero int
  | SwitchedMeanFunction "meanfunction list"
  | Additive meanfunction meanfunction
  | Product meanfunction meanfunction

text \<open>The constructors \<^verbatim>\<open>__init__\<close> with their defaults, and the two operators.\<close>

definition Linear_init :: "real tensor option \<Rightarrow> real tensor option \<Rightarrow> meanfunction" where
  "Linear_init A0 b0 =
     (let A1 = (case A0 of None \<Rightarrow> Tensor [1, 1] [1] | Some t \<Rightarrow> t);
          b1 = (case b0 of None \<Rightarrow> Tensor [1] [0] | Some t \<Rightarrow> t)
      in Linear (np_atleast_2d A1) b1)"

definition Identity_init :: "int option \<Rightarrow> meanfunction" where
  "Identity_init d = Identity d"

definition Constant_init :: "real tensor option \<Rightarrow> meanfunction" where
  "Constant_init c0 =
     (let c1 = (case c0 of None \<Rightarrow> Tensor [1] [0] | Some t \<Rightarrow> t)
      in Constant (np_reshape_row c1))"

definition Zero_init :: "int option \<Rightarrow> meanfunction" where
  "Zero_init d = Zero (case d of None \<Rightarrow> 1 | Some k \<Rightarrow> k)"



text \<open>
  The properties \<open>A\<close> and \<open>b\<close> of \<open>Identity\<close> and their setters. A getter reads
  \<open>input_dim\<close> only; a setter is \<^verbatim>\<open>pass\<close>: it returns the object as it was. Assigning
  to \<open>A\<close> or \<open>b\<close> is taken to call the setter, as the spec says and as attribute
  assignment does for a property; so the assignments in \<^verbatim>\<open>Linear.__init__\<close> store nothing
  in an \<open>Identity\<close>, whose only attribute is \<open>input_dim\<close>.
\<close>

definition input_dim_message :: string where
  "input_dim_message =
     ''An input_dim needs to be specified when using the `Identity` mean function in combination with expectations.''"

definition Identity_A :: "meanfunction \<Rightarrow> error + real tensor" where
  "Identity_A self =
     (case input_dim self of
        None \<Rightarrow> Inl (ValueError input_dim_message)
      | Some d \<Rightarrow> tf_eye d)"

definition Identity_b :: "meanfunction \<Rightarrow> error + real tensor" where
  "Identity_b self =
     (case input_dim self of
        None \<Rightarrow> Inl (ValueError input_dim_message)
      | Some d \<Rightarrow> tf_zeros [d])"

definition Identity_A_setter :: "meanfunction \<Rightarrow> real tensor \<Rightarrow> meanfunction" where
  "Identity_A_setter self A' = self"

definition Identity_b_setter :: "meanfunction \<Rightarrow> real tensor \<Rightarrow> meanfunction" where
  "Identity_b_setter self b' = self"

text \<open>
  \<^verbatim>\<open>__call__\<close>, one equation for each class; \<^verbatim>\<open>+\<close> on tensors is \<^verbatim>\<open>tf.add\<close>. The
  body of \<^verbatim>\<open>SwitchedMeanFunction.__call__\<close> up to the partition of the rows is
  \<open>switch_split\<close>: the labels \<open>ind\<close> and the feature columns.
\<close>

definition switch_split :: "real tensor \<Rightarrow> error + (int tensor \<times> real tensor)" where
  "switch_split X =
     and_then (tf_shape_at X 1) (\<lambda>d1.
     and_then (tf_gather (tf_transpose X) (Tensor [] [int d1 - 1])) (\<lambda>ind.
     and_then (tf_cast_int32 ind) (\<lambda>ind.
     and_then (tf_range 0 (int d1 - 1)) (\<lambda>cols.
     and_then (tf_gather (tf_transpose X) cols) (\<lambda>Xt.
     Inr (ind, tf_transpose Xt))))))"

function call :: "meanfunction \<Rightarrow> real tensor \<Rightarrow> error + real tensor" where
  "call MeanFunction X =
     Inl (NotImplementedError ''Implement the __call__ method for this mean function'')"
| "call (Linear A b) X = and_then (tf_matmul X A) (\<lambda>XA. tf_add XA b)"
| "call (Identity d) X = Inr X"
| "call (Constant c) X = and_then (tf_shape_at X 0) (\<lambda>n. tf_tile c [n, 1])"
| "call (Zero output_dim) X = tf_zeros (map int (butlast (shape X)) @ [output_dim])"
| "call (SwitchedMeanFunction meanfunction_list) X =
     and_then (switch_split X) (\<lambda>(ind, X').
     and_then (tf_dynamic_partition X' ind (length meanfunction_list)) (\<lambda>x_list.
     and_then (sequence (map (\<lambda>(x, m). call m x) (zip x_list meanfunction_list))) (\<lambda>results.
     and_then (tf_range 0 (int (tf_size ind))) (\<lambda>r.
     and_then (tf_dynamic_partition r ind (length meanfunction_list)) (\<lambda>partitions.
     tf_dynamic_stitch partitions results)))))"
| "call (Additive add_1 add_2) X =
     and_then (call add_1 X) (\<lambda>y1. and_then (call add_2 X) (\<lambda>y2. tf_add y1 y2))"
| "call (Product prod_1 prod_2) X =
     and_then (call prod_1 X) (\<lambda>y1. and_then (call prod_2 X) (\<lambda>y2. tf_multiply y1 y2))"
  by pat_completeness auto
termination
proof (relation "measure (\<lambda>(m, X). size m)")
  show "wf (measure (\<lambda>(m, X). size m))" by simp
next
  fix meanfunction_list :: "meanfunction list" and X :: "real tensor"
    and x_list :: "real tensor list" and xb xc z
  assume "xb \<in> set (zip x_list meanfunction_list)" and "(xc, z) = xb"
  then have "z \<in> set meanfunction_list"
    by (metis set_zip_rightD)
  then have "size z \<le> size_list size meanfunction_list"
    by (simp add: size_list_estimation')
  then show "((z, xc), SwitchedMeanFunction meanfunction_list, X) \<in> measure (\<lambda>(m, X). size m)"
    by simp
qed simp_all

section \<open>Matrices as lists of rows\<close>

text \<open>
  The matrix with the rows \<open>rs\<close>, each of length \<open>d\<close>; a row repeated to the width
  \<open>q\<close>, as broadcasting repeats it; the combination of two rows under broadcasting;
  the product of a row with a matrix, for an inner product \<open>dot\<close>.
\<close>

definition mat :: "nat \<Rightarrow> 'a list list \<Rightarrow> 'a tensor" where
  "mat d rs = Tensor [length rs, d] (concat rs)"

definition brow :: "nat \<Rightarrow> 'a list \<Rightarrow> 'a list" where
  "brow q r = (if length r = q then r else concat (replicate q r))"

definition bro :: "('a \<Rightarrow> 'a \<Rightarrow> 'a) \<Rightarrow> nat \<Rightarrow> 'a list \<Rightarrow> 'a list \<Rightarrow> 'a list" where
  "bro f q r1 r2 = map2 f (brow q r1) (brow q r2)"

definition vecmat :: "('a list \<Rightarrow> 'a list \<Rightarrow> 'a) \<Rightarrow> nat \<Rightarrow> 'a list \<Rightarrow> 'a tensor \<Rightarrow> 'a list" where
  "vecmat dot q r a = map (\<lambda>j. dot r (column a j)) [0..<q]"

section \<open>Partition and stitch on lists\<close>

text \<open>
  The columns of a list of rows; the entries of \<open>ys\<close> at the positions where the label
  list \<open>ls\<close> holds \<open>g\<close>, and those positions; the index and slice pairs that a stitch
  receives from the partitions of \<open>[0..<N]\<close> and of the rows mapped by \<open>F g\<close>.
\<close>

definition cols :: "nat \<Rightarrow> 'a list list \<Rightarrow> 'a list list" where
  "cols n rs = map (\<lambda>i. map (\<lambda>r. r ! i) rs) [0..<n]"

definition pick :: "int list \<Rightarrow> 'a list \<Rightarrow> nat \<Rightarrow> 'a list" where
  "pick ls ys g = map snd (filter (\<lambda>(p, s). p = int g) (zip ls ys))"

definition positions :: "int list \<Rightarrow> nat \<Rightarrow> nat list" where
  "positions ls g = filter (\<lambda>j. ls ! j = int g) [0..<length ls]"

definition stitched :: "int list \<Rightarrow> 'b list \<Rightarrow> (nat \<Rightarrow> 'b \<Rightarrow> 'a list) \<Rightarrow> nat \<Rightarrow> (int \<times> 'a list) list" where
  "stitched ls fs F K =
     concat (map (\<lambda>g. map (\<lambda>j. (int j, F g (fs ! j))) (positions ls g)) [0..<K])"

text \<open>
  In words: the label of a row is its last entry, cast to an integer; group \<open>g\<close> of a
  matrix holds its rows with label \<open>g\<close>, in their order, without the label column. The
  labels are in range when each is an index into the list of \<open>K\<close> children and an
  int32 value.
\<close>

definition label :: "real list \<Rightarrow> int" where
  "label r = truncate (last r)"

definition group_rows :: "real list list \<Rightarrow> nat \<Rightarrow> real list list" where
  "group_rows rs g = map butlast (filter (\<lambda>r. label r = int g) rs)"

definition labels_ok :: "nat \<Rightarrow> real list list \<Rightarrow> bool" where
  "labels_ok K rs \<longleftrightarrow> (\<forall>r \<in> set rs. 0 \<le> label r \<and> label r < int K \<and> label r < 2 ^ 31)"

definition rows :: "'a tensor \<Rightarrow> 'a list list" where
  "rows t = chop (shape t ! 0) (shape t ! 1) (elems t)"

definition label_group :: "real tensor \<Rightarrow> nat \<Rightarrow> real tensor" where
  "label_group X g = mat (shape X ! 1 - 1) (group_rows (rows X) g)"

text \<open>
  The calls that the list comprehension of \<^verbatim>\<open>SwitchedMeanFunction.__call__\<close> makes, in
  order: the pairs of \<^verbatim>\<open>zip(x_list, self.meanfunction_list)\<close>.
\<close>

definition switch_calls :: "meanfunction list \<Rightarrow> real tensor \<Rightarrow> error + (real tensor \<times> meanfunction) list" where
  "switch_calls meanfunction_list X =
     and_then (switch_split X) (\<lambda>(ind, X').
     and_then (tf_dynamic_partition X' ind (length meanfunction_list)) (\<lambda>x_list.
     Inr (zip x_list meanfunction_list)))"

section \<open>Mean functions built as documented\<close>

text \<open>
  \<open>concrete m\<close>: \<open>m\<close> is one of the classes that implement \<^verbatim>\<open>__call__\<close>, with
  parameters as its constructor documents or stores them: for \<open>Linear\<close>, \<open>A\<close> is a
  matrix \<open>D \<times> Q\<close> and \<open>b\<close> a vector of length \<open>Q\<close> (the docstring of
  \<^verbatim>\<open>Linear.__init__\<close>); for \<open>Constant\<close>, \<open>c\<close> is a row \<open>1 \<times> Q\<close> (as
  \<^verbatim>\<open>Constant.__init__\<close> reshapes it); the children of a switch and the parts of a sum
  or product are such objects again.

  \<open>rowwise m\<close>: whenever \<open>m\<close> returns on a matrix, it returns, on every matrix made
  of rows of that matrix, the matrix of one fixed function of each row.
\<close>

fun concrete :: "meanfunction \<Rightarrow> bool" where
  "concrete MeanFunction = False"
| "concrete (Linear A b) =
     (wf_tensor A \<and> wf_tensor b \<and> length (shape A) = 2 \<and> shape b = [shape A ! 1])"
| "concrete (Identity d) = True"
| "concrete (Constant c) = (wf_tensor c \<and> length (shape c) = 2 \<and> shape c ! 0 = 1)"
| "concrete (Zero d) = True"
| "concrete (SwitchedMeanFunction ms) = list_all concrete ms"
| "concrete (Additive f g) = (concrete f \<and> concrete g)"
| "concrete (Product f g) = (concrete f \<and> concrete g)"

definition rowwise :: "meanfunction \<Rightarrow> bool" where
  "rowwise m \<longleftrightarrow>
     (\<forall>D rs Y. (\<forall>r \<in> set rs. length r = D) \<and> call m (mat D rs) = Inr Y \<longrightarrow>
        (\<exists>Q f. (\<forall>r \<in> set rs. length (f r) = Q) \<and>
           (\<forall>rs'. set rs' \<subseteq> set rs \<longrightarrow> call m (mat D rs') = Inr (mat Q (map f rs')))))"

section \<open>The engine's arithmetic and dtypes\<close>

text \<open>
  The engine computes in floating arithmetic, and it refuses operands of different
  dtypes. The definitions of this section are the methods whose results depend on
  either. The type \<open>'a\<close> of the scalars is arbitrary, no law of arithmetic is assumed
  of it, and the arithmetic of the engine is a parameter: \<open>dot\<close>, the inner product of a
  row and a column inside \<^verbatim>\<open>tf.matmul\<close>; \<open>add\<close> and \<open>mul\<close>, the sum and the product of
  two scalars of one dtype.

  \<^verbatim>\<open>Linear.__call__\<close> is \<^verbatim>\<open>tf.matmul(X, self.A) + self.b\<close>. With the inner product and
  the sum of real numbers it is the equation of \<open>call\<close> for \<open>Linear\<close>.
\<close>

definition Linear_call_with ::
  "('a list \<Rightarrow> 'a list \<Rightarrow> 'a) \<Rightarrow> ('a \<Rightarrow> 'a \<Rightarrow> 'a) \<Rightarrow> 'a tensor \<Rightarrow> 'a tensor \<Rightarrow> 'a tensor \<Rightarrow>
     error + 'a tensor" where
  "Linear_call_with dot add A b X =
     and_then (tf_matmul_with dot X A) (\<lambda>XA. tf_elementwise add XA b)"

text \<open>
  The dtypes: \<open>float_type\<close> is \<^verbatim>\<open>settings.float_type\<close>, \<open>int_type\<close> is the integer type that
  NumPy gives to an array of Python integers. A typed tensor is a tensor with its
  dtype. \<^verbatim>\<open>tf.add\<close> and \<^verbatim>\<open>tf.multiply\<close> refuse operands of different dtypes when the
  operation is built, before the shapes are compared; the result has the dtype of the
  operands.
\<close>

datatype dtype = float_type | int_type

type_synonym 'a typed = "dtype \<times> 'a tensor"

definition tf_elementwise_typed ::
  "('a \<Rightarrow> 'a \<Rightarrow> 'a) \<Rightarrow> 'a typed \<Rightarrow> 'a typed \<Rightarrow> error + 'a typed" where
  "tf_elementwise_typed f a b =
     (if fst a \<noteq> fst b then Inl TypeError
      else and_then (tf_elementwise f (snd a) (snd b)) (\<lambda>y. Inr (fst a, y)))"

text \<open>
  \<^verbatim>\<open>Additive.__call__\<close> is \<^verbatim>\<open>tf.add(self.add_1(X), self.add_2(X))\<close> and
  \<^verbatim>\<open>Product.__call__\<close> is \<^verbatim>\<open>tf.multiply(self.prod_1(X), self.prod_2(X))\<close>. The two parts
  are given by their \<^verbatim>\<open>__call__\<close> methods, so that they range over every mean function,
  of this module or not.
\<close>

definition Additive_call_with ::
  "('a \<Rightarrow> 'a \<Rightarrow> 'a) \<Rightarrow> ('x \<Rightarrow> error + 'a typed) \<Rightarrow> ('x \<Rightarrow> error + 'a typed) \<Rightarrow> 'x \<Rightarrow>
     error + 'a typed" where
  "Additive_call_with add add_1 add_2 X =
     and_then (add_1 X) (\<lambda>y1. and_then (add_2 X) (\<lambda>y2. tf_elementwise_typed add y1 y2))"

definition Product_call_with ::
  "('a \<Rightarrow> 'a \<Rightarrow> 'a) \<Rightarrow> ('x \<Rightarrow> error + 'a typed) \<Rightarrow> ('x \<Rightarrow> error + 'a typed) \<Rightarrow> 'x \<Rightarrow>
     error + 'a typed" where
  "Product_call_with mul prod_1 prod_2 X =
     and_then (prod_1 X) (\<lambda>y1. and_then (prod_2 X) (\<lambda>y2. tf_elementwise_typed mul y1 y2))"



section \<open>Sequencing and lists\<close>

lemma and_then_Inr [simp]: "and_then (Inr v) f = f v"
  by (simp add: and_then_def)

lemma and_then_Inl [simp]: "and_then (Inl e) f = Inl e"
  by (simp add: and_then_def)

lemma and_then_eq_Inr: "and_then r f = Inr y \<longleftrightarrow> (\<exists>v. r = Inr v \<and> f v = Inr y)"
  by (cases r) simp_all

lemma length_chop [simp]: "length (chop n k xs) = n"
  by (simp add: chop_def)

lemma nth_chop: "i < n \<Longrightarrow> chop n k xs ! i = take k (drop (i * k) xs)"
  by (simp add: chop_def)

lemma chop_Suc: "chop (Suc n) k xs = take k xs # chop n k (drop k xs)"
proof (rule nth_equalityI)
  show "length (chop (Suc n) k xs) = length (take k xs # chop n k (drop k xs))"
    by simp
next
  fix i assume "i < length (chop (Suc n) k xs)"
  then have "i < Suc n" by simp
  then show "chop (Suc n) k xs ! i = (take k xs # chop n k (drop k xs)) ! i"
    by (cases i) (simp_all add: nth_chop add.commute)
qed

lemma chop_0 [simp]: "chop 0 k xs = []"
  by (simp add: chop_def)

lemma chop_concat: "\<forall>r \<in> set rs. length r = k \<Longrightarrow> chop (length rs) k (concat rs) = rs"
  by (induction rs) (simp_all add: chop_Suc)

lemma concat_chop: "length xs = n * k \<Longrightarrow> concat (chop n k xs) = xs"
proof (induction n arbitrary: xs)
  case 0
  then show ?case by simp
next
  case (Suc n)
  then have "length (drop k xs) = n * k" by simp
  with Suc.IH have "concat (chop n k (drop k xs)) = drop k xs" by blast
  then show ?case by (simp add: chop_Suc)
qed

lemma set_chop_length: "length xs = n * k \<Longrightarrow> r \<in> set (chop n k xs) \<Longrightarrow> length r = k"
proof (induction n arbitrary: xs)
  case 0
  then show ?case by simp
next
  case (Suc n)
  from Suc.prems have len: "length (drop k xs) = n * k" by simp
  from Suc.prems have "r = take k xs \<or> r \<in> set (chop n k (drop k xs))"
    by (simp add: chop_Suc)
  then show ?case
  proof
    assume "r = take k xs"
    with Suc.prems show ?thesis by simp
  next
    assume "r \<in> set (chop n k (drop k xs))"
    with len show ?thesis by (rule Suc.IH)
  qed
qed

lemma chop_singletons: "chop (length xs) (Suc 0) xs = map (\<lambda>x. [x]) xs"
  by (induction xs) (simp_all add: chop_Suc)

lemma nth_concat_uniform:
  assumes "\<forall>r \<in> set rs. length r = k" "i < length rs" "j < k"
  shows "concat rs ! (i * k + j) = rs ! i ! j"
proof -
  have "rs ! i = take k (drop (i * k) (concat rs))"
    using assms(1,2) chop_concat[of rs k] nth_chop[of i "length rs" k "concat rs"] by simp
  then have "rs ! i ! j = take k (drop (i * k) (concat rs)) ! j"
    by simp
  also have "\<dots> = drop (i * k) (concat rs) ! j"
    using assms(3) by simp
  also have "\<dots> = concat rs ! (i * k + j)"
  proof -
    have "length (rs ! i) = k" using assms(1,2) by simp
    have "length (concat rs) = length rs * k"
      using assms(1) by (induction rs) simp_all
    moreover have "i * k + k \<le> length rs * k"
      using assms(2) by (metis Suc_leI mult_Suc mult_le_mono1 add.commute)
    ultimately have "i * k \<le> length (concat rs)" by linarith
    then show ?thesis by simp
  qed
  finally show ?thesis by simp
qed

lemma tile_row: 
  assumes "length xs = q"
  shows "tile_elems [1, q] [n, 1] xs = concat (replicate n xs)"
proof -
  have "chop q (Suc 0) xs = map (\<lambda>x. [x]) xs"
    using assms chop_singletons by blast 
  then have "tile_elems [q] [1] xs = xs"
    by (simp add: comp_def)
  then show ?thesis
    using assms by (simp add: chop_Suc)
qed

lemma row_mat:
  assumes "\<forall>r \<in> set rs. length r = k" "i < length rs"
  shows "row (Tensor [length rs, k] (concat rs)) i = rs ! i"
  using assms chop_concat[of rs k] nth_chop[of i "length rs" k "concat rs"]
  by (simp add: row_def)

section \<open>Matrices, broadcasting and the matrix product\<close>

lemma tensor_as_mat:
  assumes "wf_tensor X" "shape X = [n, d]"
  shows "X = mat d (chop n d (elems X))" "\<forall>r \<in> set (chop n d (elems X)). length r = d"
proof -
  have len: "length (elems X) = n * d"
    using assms by (simp add: wf_tensor_def)
  show "X = mat d (chop n d (elems X))"
    using assms(2) concat_chop[OF len] by (cases X) (simp add: mat_def)
  show "\<forall>r \<in> set (chop n d (elems X)). length r = d"
    using set_chop_length[OF len] by blast
qed

lemma length_concat_uniform:
  "\<forall>r \<in> set rs. length r = k \<Longrightarrow> length (concat rs) = length rs * k"
  by (induction rs) simp_all

lemma wf_mat: "\<forall>r \<in> set rs. length r = d \<Longrightarrow> wf_tensor (mat d rs)"
  by (simp add: wf_tensor_def mat_def length_concat_uniform)

lemma map2_concat:
  "length xss = length yss \<Longrightarrow> \<forall>(xs, ys) \<in> set (zip xss yss). length xs = length ys \<Longrightarrow>
   map2 f (concat xss) (concat yss) = concat (map2 (\<lambda>xs ys. map2 f xs ys) xss yss)"
proof (induction xss yss rule: list_induct2)
  case Nil
  then show ?case by simp
next
  case (Cons xs xss ys yss)
  then show ?case by (simp add: zip_append)
qed

lemma broadcast_elems_Nil [simp]: "broadcast_elems [] [] = (\<lambda>xs. xs)"
  by (rule ext) simp

lemma broadcast_elems_row:
  assumes "length r = q1" "q1 = q \<or> q1 = 1"
  shows "broadcast_elems [q1] [q] r = brow q r"
proof (cases "q1 = q")
  case True
  then have "chop q (Suc 0) r = map (\<lambda>x. [x]) r"
    using assms(1) chop_singletons[of r] by simp
  then show ?thesis using True assms(1) by (simp add: brow_def comp_def)
next
  case False
  then show ?thesis using assms by (simp add: brow_def)
qed

lemma length_brow: "length r = q \<or> length r = 1 \<Longrightarrow> length (brow q r) = q"
  by (auto simp: brow_def sum_list_replicate length_concat)

lemma broadcast_to_mat:
  assumes "\<forall>r \<in> set rs. length r = q1" "q1 = q \<or> q1 = 1"
  shows "broadcast_to [length rs, q] (mat q1 rs) = concat (map (brow q) rs)"
proof -
  have "broadcast_elems [q1] [q] r = brow q r" if "r \<in> set rs" for r
    using that assms broadcast_elems_row[of r q1 q] by blast
  then have eq: "map (broadcast_elems [q1] [q]) rs = map (brow q) rs"
    by (intro map_cong) (rule refl)
  have "broadcast_to [length rs, q] (mat q1 rs) =
      concat (map (broadcast_elems [q1] [q]) (chop (length rs) q1 (concat rs)))"
    by (simp add: broadcast_to_def mat_def)
  also have "\<dots> = concat (map (brow q) rs)"
    by (simp only: chop_concat[OF assms(1)] eq)
  finally show ?thesis .
qed

lemma broadcast_shape_mat:
  "broadcast_shape [n, q1] [n, q2] =
     (if q1 = q2 \<or> q2 = 1 then Some [n, q1] else if q1 = 1 then Some [n, q2] else None)"
  by (simp add: broadcast_shape_def)

lemma elementwise_mat:
  assumes r1: "\<forall>r \<in> set rs1. length r = q1" and r2: "\<forall>r \<in> set rs2. length r = q2"
    and len: "length rs1 = length rs2"
  shows "tf_elementwise f (mat q1 rs1) (mat q2 rs2) =
     (if q1 = q2 \<or> q2 = 1 then Inr (mat q1 (map2 (bro f q1) rs1 rs2))
      else if q1 = 1 then Inr (mat q2 (map2 (bro f q2) rs1 rs2))
      else Inl ShapeMismatch)"
proof -
  have main: "Tensor [length rs1, q] (map2 f (broadcast_to [length rs1, q] (mat q1 rs1))
                 (broadcast_to [length rs1, q] (mat q2 rs2))) = mat q (map2 (bro f q) rs1 rs2)"
    if "q1 = q \<or> q1 = 1" "q2 = q \<or> q2 = 1" for q
  proof -
    have b1: "broadcast_to [length rs1, q] (mat q1 rs1) = concat (map (brow q) rs1)"
      using broadcast_to_mat[OF r1 that(1)] .
    have b2: "broadcast_to [length rs1, q] (mat q2 rs2) = concat (map (brow q) rs2)"
      using broadcast_to_mat[OF r2 that(2)] len by simp
    have "\<forall>(xs, ys) \<in> set (zip (map (brow q) rs1) (map (brow q) rs2)). length xs = length ys"
    proof -
      have "length (brow q x) = length (brow q y)" if "x \<in> set rs1" "y \<in> set rs2" for x y
        using that r1 r2 \<open>q1 = q \<or> q1 = 1\<close> \<open>q2 = q \<or> q2 = 1\<close> length_brow[of x q] length_brow[of y q]
        by auto
      then show ?thesis
        by (auto simp: zip_map_map dest: set_zip_leftD set_zip_rightD)
    qed
    then have "map2 f (concat (map (brow q) rs1)) (concat (map (brow q) rs2)) =
        concat (map2 (\<lambda>xs ys. map2 f xs ys) (map (brow q) rs1) (map (brow q) rs2))"
      using len by (intro map2_concat) simp_all
    also have "\<dots> = concat (map2 (bro f q) rs1 rs2)"
      by (simp add: zip_map_map bro_def comp_def split_def)
    finally show ?thesis
      using b1 b2 len by (simp add: mat_def)
  qed
  show ?thesis
    using main[of q1] main[of q2] len
    by (auto simp: tf_elementwise_def mat_def broadcast_shape_mat)
qed


lemma matmul_with_mat:
  assumes "shape a = [d', q]" "\<forall>r \<in> set rs. length r = d"
  shows "tf_matmul_with dot (mat d rs) a =
     (if d = d' then Inr (mat q (map (\<lambda>r. vecmat dot q r a) rs))
      else Inl ShapeMismatch)"
proof -
  have "tf_matmul_with dot (mat d rs) a =
     (if d = d' then Inr (mat q (map (\<lambda>r. vecmat dot q r a) (chop (length rs) d (concat rs))))
      else Inl ShapeMismatch)"
    using assms(1) by (simp add: tf_matmul_with_def mat_def vecmat_def Let_def)
  then show ?thesis
    by (simp only: chop_concat[OF assms(2)])
qed

lemma matmul_mat:
  assumes "shape a = [d', q]" "\<forall>r \<in> set rs. length r = d"
  shows "tf_matmul (mat d rs) a =
     (if d = d' then Inr (mat q (map (\<lambda>r. vecmat exact_dot q r a) rs))
      else Inl ShapeMismatch)"
  unfolding tf_matmul_def using assms by (rule matmul_with_mat)



lemma broadcast_elems_id: "length xs = prod_list s \<Longrightarrow> broadcast_elems s s xs = xs"
proof (induction s arbitrary: xs)
  case Nil
  then show ?case by simp
next
  case (Cons d ds)
  have len: "length xs = d * prod_list ds" using Cons.prems by simp
  have "map (broadcast_elems ds ds) (chop d (prod_list ds) xs) = chop d (prod_list ds) xs"
    using set_chop_length[OF len] Cons.IH by (intro map_idI) blast
  then show ?case
    using concat_chop[OF len] by simp
qed

lemma broadcast_to_same: "wf_tensor t \<Longrightarrow> broadcast_to (shape t) t = elems t"
  by (simp add: broadcast_to_def wf_tensor_def broadcast_elems_id)


lemma elementwise_vector:
  assumes "\<forall>r \<in> set rs. length r = q" "length v = q"
  shows "tf_elementwise f (mat q rs) (Tensor [q] v) = Inr (mat q (map (\<lambda>r. map2 f r v) rs))"
proof -
  have sh: "broadcast_shape [length rs, q] [q] = Some [length rs, q]"
    by (simp add: broadcast_shape_def)
  have vv: "broadcast_elems [q] [q] v = v"
    using broadcast_elems_id[of v "[q]"] assms(2) by simp
  have "broadcast_elems [Suc 0, q] [n, q] v = concat (replicate n v)" for n
  proof (cases "Suc 0 = n")
    case True
    then have n: "n = Suc 0" by simp
    show ?thesis
      unfolding n using broadcast_elems_id[of v "[Suc 0, q]"] assms(2)
      by (simp del: broadcast_elems.simps)
  next
    case False
    then have "broadcast_elems [Suc 0, q] [n, q] v = concat (replicate n (broadcast_elems [q] [q] v))"
      by simp
    then show ?thesis
      by (simp only: vv)
  qed
  then have b2: "broadcast_to [length rs, q] (Tensor [q] v) = concat (replicate (length rs) v)"
    by (simp add: broadcast_to_def del: broadcast_elems.simps)
  have b1: "broadcast_to [length rs, q] (mat q rs) = concat rs"
    using broadcast_to_same[of "mat q rs"] wf_mat[OF assms(1)] by (simp add: mat_def)
  have "map2 f (concat rs) (concat (replicate (length rs) v)) =
        concat (map2 (\<lambda>xs ys. map2 f xs ys) rs (replicate (length rs) v))"
  proof (rule map2_concat)
    show "length rs = length (replicate (length rs) v)" by simp
    show "\<forall>(xs, ys) \<in> set (zip rs (replicate (length rs) v)). length xs = length ys"
    proof clarify
      fix xs ys assume "(xs, ys) \<in> set (zip rs (replicate (length rs) v))"
      then have "xs \<in> set rs" "ys \<in> set (replicate (length rs) v)"
        by (auto dest: set_zip_leftD set_zip_rightD)
      then show "length xs = length ys"
        using assms by auto
    qed
  qed
  also have "map2 (\<lambda>xs ys. map2 f xs ys) rs (replicate (length rs) v) = map (\<lambda>r. map2 f r v) rs"
    by (induction rs) simp_all
  finally show ?thesis
    using sh b1 b2 by (simp add: tf_elementwise_def mat_def)
qed

lemma add_vector:
  assumes "\<forall>r \<in> set rs. length r = q" "length v = q"
  shows "tf_add (mat q rs) (Tensor [q] v) = Inr (mat q (map (\<lambda>r. map2 (+) r v) rs))"
  unfolding tf_add_def using assms by (rule elementwise_vector)

lemma sum_list_upt: "sum_list (map f [0..<n]) = (\<Sum>k<n. f k)"
  by (simp add: interv_sum_list_conv_sum_set_nat lessThan_atLeast0)

section \<open>Transposition, partition and stitch\<close>

lemma shape_mat [simp]: "shape (mat d rs) = [length rs, d]"
  by (simp add: mat_def)

lemma elems_mat [simp]: "elems (mat d rs) = concat rs"
  by (simp add: mat_def)

lemma concat_transpose:
  assumes "\<forall>r \<in> set rs. length r = n"
  shows "concat (transpose rs) = concat (cols n rs)"
proof (cases "rs = []")
  case True
  then show ?thesis by (simp add: cols_def)
next
  case False
  have "transpose rs = map (\<lambda>i. map (\<lambda>j. rs ! j ! i) [0..<length rs]) [0..<n]"
    using False assms by (intro transpose_rectangle) simp_all
  moreover have "map (\<lambda>j. rs ! j ! i) [0..<length rs] = map (\<lambda>r. r ! i) rs" for i
    by (rule nth_equalityI) simp_all
  ultimately show ?thesis by (simp add: cols_def)
qed

lemma transpose_elems_vec: "length r = k \<Longrightarrow> transpose_elems [k] r = r"
proof -
  assume len: "length r = k"
  have ch: "chop k (Suc 0) r = map (\<lambda>x. [x]) r"
    using len chop_singletons[of r] by simp
  have "concat (transpose (map (\<lambda>x. [x]) r)) = concat (cols 1 (map (\<lambda>x. [x]) r))"
    by (rule concat_transpose) auto
  also have "\<dots> = r"
    by (simp add: cols_def comp_def)
  finally show ?thesis
    using ch by (simp add: comp_def)
qed

lemma transpose_mat:
  assumes "\<forall>r \<in> set rs. length r = n"
  shows "tf_transpose (mat n rs) = mat (length rs) (cols n rs)"
proof -
  have "map (transpose_elems [n]) rs = rs"
    using assms transpose_elems_vec by (intro map_idI) blast
  then have "transpose_elems [length rs, n] (concat rs) = concat (transpose rs)"
    using chop_concat[OF assms] by (simp del: transpose_elems.simps(2) add: transpose_elems.simps(2)[of "length rs" "[n]"])
  then show ?thesis
    using concat_transpose[OF assms] by (simp add: tf_transpose_def mat_def cols_def)
qed

lemma cols_rows: "\<forall>r \<in> set (cols n rs). length r = length rs"
  by (simp add: cols_def)

lemma length_cols [simp]: "length (cols n rs) = n"
  by (simp add: cols_def)

lemma slices_mat: "\<forall>r \<in> set rs. length r = n \<Longrightarrow> slices (mat n rs) = rs"
  by (simp add: slices_def mat_def chop_concat)

lemma cols_cols:
  assumes "\<forall>r \<in> set rs. length r = n" "d \<le> n"
  shows "cols (length rs) (cols d rs) = map (take d) rs"
proof (rule nth_equalityI)
  show "length (cols (length rs) (cols d rs)) = length (map (take d) rs)" by simp
next
  fix j assume "j < length (cols (length rs) (cols d rs))"
  then have j: "j < length rs" by simp
  then have "length (rs ! j) = n" using assms(1) by simp
  then have "map (\<lambda>i. rs ! j ! i) [0..<d] = take d (rs ! j)"
    using assms(2) by (intro nth_equalityI) simp_all
  then show "cols (length rs) (cols d rs) ! j = map (take d) rs ! j"
    using j by (simp add: cols_def comp_def)
qed

lemma upto_as_upt: "[0..int n - 1] = map int [0..<n]"
proof (induction n)
  case 0
  then show ?case by simp
next
  case (Suc n)
  have "[0..int (Suc n) - 1] = [0..int n - 1] @ [int n]"
    using upto_rec2[of 0 "int n"] by simp
  then show ?case using Suc by simp
qed

lemma switch_split_mat:
  assumes "\<forall>r \<in> set rs. length r = Suc D"
  shows "switch_split (mat (Suc D) rs) =
     (if \<exists>r \<in> set rs. truncate (last r) < - (2 ^ 31) \<or> 2 ^ 31 \<le> truncate (last r) then Inl Unsupported
      else Inr (Tensor [length rs] (map (\<lambda>r. truncate (last r)) rs), mat D (map butlast rs)))"
proof -
  let ?N = "length rs"
  let ?cs = "cols (Suc D) rs"
  have last: "r ! D = last r" if "r \<in> set rs" for r
    using that assms by (metis diff_Suc_1 last_conv_nth length_0_conv nat.simps(3))
  have bl: "take D r = butlast r" if "r \<in> set rs" for r
    using that assms by (simp add: butlast_conv_take)
  have crows: "\<forall>r \<in> set ?cs. length r = ?N"
    by (rule cols_rows)
  have tr: "tf_transpose (mat (Suc D) rs) = mat ?N ?cs"
    by (rule transpose_mat[OF assms])
  have sl: "slices (mat ?N ?cs) = ?cs"
    by (rule slices_mat[OF crows])
  have nthc: "?cs ! D = map (\<lambda>r. r ! D) rs"
    by (simp add: cols_def del: upt_Suc)
  have g1: "tf_gather (mat ?N ?cs) (Tensor [] [int (Suc D) - 1]) = Inr (Tensor [?N] (map (\<lambda>r. r ! D) rs))"
    using sl nthc by (simp add: tf_gather_def)
  have lastmap: "map (\<lambda>r. r ! D) rs = map last rs"
    using last by (intro map_cong) simp_all
  have rg: "tf_range 0 (int (Suc D) - 1) = Inr (Tensor [D] (map int [0..<D]))"
    using upto_as_upt[of D] by (simp add: tf_range_def)
  have "map (\<lambda>i. ?cs ! nat i) (map int [0..<D]) = cols D rs"
    by (simp add: cols_def comp_def del: upt_Suc)
  then have g2: "tf_gather (mat ?N ?cs) (Tensor [D] (map int [0..<D])) = Inr (mat ?N (cols D rs))"
    using sl by (simp add: tf_gather_def comp_def) (simp add: mat_def)
  have "tf_transpose (mat ?N (cols D rs)) = mat D (cols ?N (cols D rs))"
    using transpose_mat[of "cols D rs" ?N] cols_rows[of D rs] by simp
  also have "cols ?N (cols D rs) = map (take D) rs"
    using cols_cols[OF assms, of D] by simp
  also have "\<dots> = map butlast rs"
    using bl by (intro map_cong) simp_all
  finally have t2: "tf_transpose (mat ?N (cols D rs)) = mat D (map butlast rs)" .
  have sh: "tf_shape_at (mat (Suc D) rs) 1 = Inr (Suc D)"
    by (simp add: tf_shape_at_def)
  have cast: "tf_cast_int32 (Tensor [?N] (map last rs)) =
     (if \<exists>r \<in> set rs. truncate (last r) < - (2 ^ 31) \<or> 2 ^ 31 \<le> truncate (last r) then Inl Unsupported
      else Inr (Tensor [?N] (map (\<lambda>r. truncate (last r)) rs)))"
    by (simp add: tf_cast_int32_def comp_def)
  show ?thesis
    unfolding switch_split_def sh tr
    by (simp only: and_then_Inr g1 lastmap cast rg g2 t2 and_then_Inl if_distrib[of "\<lambda>r. and_then r _"] cong: if_cong)
qed


lemma zip_nth: "length xs = length ys \<Longrightarrow> zip xs ys = map (\<lambda>j. (xs ! j, ys ! j)) [0..<length xs]"
  by (rule nth_equalityI) simp_all

lemma pick_positions:
  assumes "length ys = length ls"
  shows "pick ls ys g = map (\<lambda>j. ys ! j) (positions ls g)"
proof -
  have "zip ls ys = map (\<lambda>j. (ls ! j, ys ! j)) [0..<length ls]"
    using assms zip_nth[of ls ys] by simp
  then show ?thesis
    by (simp add: pick_def positions_def filter_map comp_def)
qed

lemma pick_map: "pick ls (map f ys) g = map f (pick ls ys g)"
proof -
  have "zip ls (map f ys) = map (\<lambda>(p, s). (p, f s)) (zip ls ys)"
    by (simp add: zip_map2)
  then show ?thesis
    by (simp add: pick_def filter_map comp_def split_def)
qed

lemma set_pick: "set (pick ls ys g) \<subseteq> set ys"
  by (auto simp: pick_def dest: set_zip_rightD)

lemma length_pick: "length ys = length ls \<Longrightarrow> length (pick ls ys g) = length (positions ls g)"
  by (simp add: pick_positions)

lemma partition_mat:
  assumes "\<forall>r \<in> set fs. length r = D" "length ls = length fs"
  shows "tf_dynamic_partition (mat D fs) (Tensor [length fs] ls) K =
     (if K < 1 then Inl InvalidArgument
      else if \<exists>p \<in> set ls. p < 0 \<or> int K \<le> p then Inl IndexOutOfRange
      else Inr (map (\<lambda>g. mat D (pick ls fs g)) [0..<K]))"
  using assms chop_concat[of fs D]
  by (simp add: tf_dynamic_partition_def pick_def mat_def Let_def)

lemma partition_vec:
  assumes "length ls = length xs"
  shows "tf_dynamic_partition (Tensor [length xs] xs) (Tensor [length xs] ls) K =
     (if K < 1 then Inl InvalidArgument
      else if \<exists>p \<in> set ls. p < 0 \<or> int K \<le> p then Inl IndexOutOfRange
      else Inr (map (\<lambda>g. Tensor [length (pick ls xs g)] (pick ls xs g)) [0..<K]))"
proof -
  have "concat (pick ls (map (\<lambda>x. [x]) xs) g) = pick ls xs g" for g
    by (simp add: pick_map comp_def)
  moreover have "length (pick ls (map (\<lambda>x. [x]) xs) g) = length (pick ls xs g)" for g
    by (simp add: pick_map)
  ultimately show ?thesis
    using assms chop_singletons[of xs]
    by (simp add: tf_dynamic_partition_def Let_def pick_def[symmetric])
qed

lemma sequence_map_Inr:
  "(\<forall>x \<in> set xs. h x = Inr (k x)) \<Longrightarrow> sequence (map h xs) = Inr (map k xs)"
  by (induction xs) simp_all

lemma sequence_map_InrD:
  "sequence (map h xs) = Inr ys \<Longrightarrow> length ys = length xs \<and> (\<forall>i < length xs. h (xs ! i) = Inr (ys ! i))"
proof (induction xs arbitrary: ys)
  case Nil
  then show ?case by simp
next
  case (Cons x xs)
  from Cons.prems obtain v vs where v: "h x = Inr v" and vs: "sequence (map h xs) = Inr vs"
    and ys: "ys = v # vs"
    by (auto simp: and_then_eq_Inr)
  from Cons.IH[OF vs] have "length vs = length xs" "\<forall>i < length xs. h (xs ! i) = Inr (vs ! i)"
    by blast+
  then show ?case
    using v ys by (auto simp: nth_Cons split: nat.splits)
qed


lemma set_positions: "set (positions ls g) = {j. j < length ls \<and> ls ! j = int g}"
  by (auto simp: positions_def)

lemma distinct_positions: "distinct (positions ls g)"
  by (simp add: positions_def)

lemma pick_indices: "pick ls (map int [0..<length ls]) g = map int (positions ls g)"
proof -
  have "map (\<lambda>j. map int [0..<length ls] ! j) (positions ls g) = map int (positions ls g)"
    by (rule map_cong) (auto simp: set_positions)
  then show ?thesis
    by (simp add: pick_positions)
qed

lemma distinct_concat_positions: "distinct (concat (map (positions ls) [0..<K]))"
proof (induction K)
  case 0
  then show ?case by simp
next
  case (Suc K)
  have "set (concat (map (positions ls) [0..<K])) \<inter> set (positions ls K) = {}"
    by (auto simp: set_positions)
  then show ?case
    using Suc distinct_positions[of ls K] by simp
qed

lemma map_fst_stitched: "map fst (stitched ls fs F K) = map int (concat (map (positions ls) [0..<K]))"
  by (simp add: stitched_def map_concat comp_def)

lemma distinct_stitched: "distinct (map fst (stitched ls fs F K))"
  using distinct_concat_positions[of ls K]
  by (simp add: map_fst_stitched distinct_map)

lemma stitched_member:
  assumes "j < length ls" "0 \<le> ls ! j" "ls ! j < int K"
  shows "(int j, F (nat (ls ! j)) (fs ! j)) \<in> set (stitched ls fs F K)"
proof -
  have "nat (ls ! j) < K" using assms by simp
  moreover have "j \<in> set (positions ls (nat (ls ! j)))"
    using assms by (simp add: set_positions)
  ultimately show ?thesis
    by (auto simp: stitched_def intro!: bexI[of _ "nat (ls ! j)"])
qed

lemma stitched_keys: "fst ` set (stitched ls fs F K) \<subseteq> int ` {0..<length ls}"
  by (auto simp: stitched_def set_positions)

lemma stitched_lookup:
  assumes "j < length ls" "0 \<le> ls ! j" "ls ! j < int K"
  shows "map_of (rev (stitched ls fs F K)) (int j) = Some (F (nat (ls ! j)) (fs ! j))"
proof (rule map_of_is_SomeI)
  show "distinct (map fst (rev (stitched ls fs F K)))"
    using distinct_stitched[of ls fs F K] by (simp add: rev_map[symmetric])
  show "(int j, F (nat (ls ! j)) (fs ! j)) \<in> set (rev (stitched ls fs F K))"
    using stitched_member[OF assms] by simp
qed

lemma fold_max_stitched:
  assumes "\<forall>l \<in> set ls. 0 \<le> l \<and> l < int K"
  shows "nat (fold max (map fst (stitched ls fs F K)) (- 1) + 1) = length ls"
proof -
  let ?ks = "map fst (stitched ls fs F K)"
  have "fold max ?ks (- 1) = Max (set ((- 1) # ?ks))"
    by (simp only: Max.set_eq_fold)
  also have "\<dots> = int (length ls) - 1"
  proof (rule Max_eqI)
    show "finite (set ((- 1) # ?ks))" by simp
    show "y \<le> int (length ls) - 1" if "y \<in> set ((- 1) # ?ks)" for y
      using that stitched_keys[of ls fs F K] by auto
    show "int (length ls) - 1 \<in> set ((- 1) # ?ks)"
    proof (cases "length ls")
      case 0
      then show ?thesis by simp
    next
      case (Suc n)
      then have n: "n < length ls" by simp
      then have "0 \<le> ls ! n \<and> ls ! n < int K" using assms by simp
      then have "(int n, F (nat (ls ! n)) (fs ! n)) \<in> set (stitched ls fs F K)"
        using stitched_member[OF n] by blast
      then have "int n \<in> set ?ks" by force
      then show ?thesis using Suc by simp
    qed
  qed
  finally show ?thesis by simp
qed


lemma zip_map_same: "zip (map f xs) (map g xs) = map (\<lambda>x. (f x, g x)) xs"
  by (induction xs) simp_all

lemma stitch_pairs_partition:
  assumes len: "length fs = length ls"
    and rowsQ: "\<forall>g < K. \<forall>j \<in> set (positions ls g). length (F g (fs ! j)) = Q"
  shows "stitch_pairs
           (map (\<lambda>g. Tensor [length (pick ls (map int [0..<length ls]) g)]
                      (pick ls (map int [0..<length ls]) g)) [0..<K])
           (map (\<lambda>g. mat Q (map (F g) (pick ls fs g))) [0..<K]) = stitched ls fs F K"
proof -
  have one: "zip (map int (positions ls g))
       (chop (length (positions ls g)) Q (concat (map (F g) (pick ls fs g)))) =
       map (\<lambda>j. (int j, F g (fs ! j))) (positions ls g)" if "g < K" for g
  proof -
    have pk: "map (F g) (pick ls fs g) = map (\<lambda>j. F g (fs ! j)) (positions ls g)"
      using len by (simp add: pick_positions comp_def)
    have "\<forall>r \<in> set (map (\<lambda>j. F g (fs ! j)) (positions ls g)). length r = Q"
      using rowsQ that by auto
    from chop_concat[OF this]
    have "chop (length (positions ls g)) Q (concat (map (F g) (pick ls fs g))) =
        map (\<lambda>j. F g (fs ! j)) (positions ls g)"
      using pk by simp
    then show ?thesis
      by (simp add: zip_map_same)
  qed
  have eq: "map (\<lambda>g. zip (map int (positions ls g))
           (chop (length (positions ls g)) Q (concat (map (F g) (pick ls fs g))))) [0..<K] =
        map (\<lambda>g. map (\<lambda>j. (int j, F g (fs ! j))) (positions ls g)) [0..<K]"
    using one by (intro map_cong) simp_all
  have "stitch_pairs
           (map (\<lambda>g. Tensor [length (pick ls (map int [0..<length ls]) g)]
                      (pick ls (map int [0..<length ls]) g)) [0..<K])
           (map (\<lambda>g. mat Q (map (F g) (pick ls fs g))) [0..<K]) =
        concat (map (\<lambda>g. zip (map int (positions ls g))
           (chop (length (positions ls g)) Q (concat (map (F g) (pick ls fs g))))) [0..<K])"
    by (simp add: stitch_pairs_def zip_map_same comp_def pick_indices)
  then show ?thesis
    unfolding eq stitched_def .
qed

lemma dynamic_stitch_Inr:
  assumes "indices \<noteq> []" and "length indices = length data_l"
    and "\<forall>(ix, d) \<in> set (zip indices data_l). take (length (shape ix)) (shape d) = shape ix"
    and "\<forall>(ix, d) \<in> set (zip indices data_l). drop (length (shape ix)) (shape d) = rest"
    and "drop (length (shape (hd indices))) (shape (hd data_l)) = rest"
    and "\<forall>ix \<in> set indices. \<forall>i \<in> set (elems ix). 0 \<le> i"
    and "stitch_pairs indices data_l = pairs"
    and "nat (fold max (map fst pairs) (- 1) + 1) = n"
    and "map (\<lambda>j. map_of (rev pairs) (int j)) [0..<n] = map Some vs"
  shows "tf_dynamic_stitch indices data_l = Inr (Tensor (n # rest) (concat vs))"
proof -
  have c1: "\<not> (indices = [] \<or> length indices \<noteq> length data_l)"
    using assms(1,2) by simp
  have c2: "\<not> (\<exists>(ix, d) \<in> set (zip indices data_l). take (length (shape ix)) (shape d) \<noteq> shape ix)"
    using assms(3) by fastforce
  have c3: "\<not> (\<exists>(ix, d) \<in> set (zip indices data_l). drop (length (shape ix)) (shape d) \<noteq> rest)"
    using assms(4) by fastforce
  have c4: "\<not> (\<exists>ix \<in> set indices. \<exists>i \<in> set (elems ix). i < 0)"
    using assms(6) by fastforce
  have c5: "None \<notin> set (map (\<lambda>j. map_of (rev pairs) (int j)) [0..<n])"
    unfolding assms(9) by auto
  have fin: "map the (map (\<lambda>j. map_of (rev pairs) (int j)) [0..<n]) = vs"
    unfolding assms(9) by (simp add: comp_def)
  show ?thesis
    by (simp only: tf_dynamic_stitch_def Let_def assms(5,7,8) c1 c2 c3 c4 c5 fin if_False)
qed

lemma stitch_partition:
  assumes K: "0 < K" and lab: "\<forall>l \<in> set ls. 0 \<le> l \<and> l < int K"
    and len: "length fs = length ls"
    and rowsQ: "\<forall>g < K. \<forall>j \<in> set (positions ls g). length (F g (fs ! j)) = Q"
  shows "tf_dynamic_stitch
           (map (\<lambda>g. Tensor [length (pick ls (map int [0..<length ls]) g)]
                      (pick ls (map int [0..<length ls]) g)) [0..<K])
           (map (\<lambda>g. mat Q (map (F g) (pick ls fs g))) [0..<K]) =
         Inr (mat Q (map (\<lambda>j. F (nat (ls ! j)) (fs ! j)) [0..<length ls]))"
proof -
  let ?I = "\<lambda>g. Tensor [length (pick ls (map int [0..<length ls]) g)]
                      (pick ls (map int [0..<length ls]) g)"
  let ?R = "\<lambda>g. mat Q (map (F g) (pick ls fs g))"
  let ?is = "map ?I [0..<K]" and ?ds = "map ?R [0..<K]"
  have z: "zip ?is ?ds = map (\<lambda>g. (?I g, ?R g)) [0..<K]"
    by (rule zip_map_same)
  have lenp: "length (pick ls fs g) = length (pick ls (map int [0..<length ls]) g)" for g
    using len by (simp add: length_pick)
  have hd_is: "hd ?is = ?I 0" and hd_ds: "hd ?ds = ?R 0"
    using K by (simp_all add: hd_map upt_conv_Cons)
  have look: "map_of (rev (stitched ls fs F K)) (int j) = Some (F (nat (ls ! j)) (fs ! j))"
    if "j < length ls" for j
    using stitched_lookup[OF that, of K fs F] lab that by simp
  have "tf_dynamic_stitch ?is ?ds =
      Inr (Tensor (length ls # [Q]) (concat (map (\<lambda>j. F (nat (ls ! j)) (fs ! j)) [0..<length ls])))"
  proof (rule dynamic_stitch_Inr)
    show "?is \<noteq> []" using K by simp
    show "length ?is = length ?ds" by simp
    show "\<forall>(ix, d) \<in> set (zip ?is ?ds). take (length (shape ix)) (shape d) = shape ix"
      unfolding z using lenp by auto
    show "\<forall>(ix, d) \<in> set (zip ?is ?ds). drop (length (shape ix)) (shape d) = [Q]"
      unfolding z by auto
    show "drop (length (shape (hd ?is))) (shape (hd ?ds)) = [Q]"
      unfolding hd_is hd_ds by simp
    show "\<forall>ix \<in> set ?is. \<forall>i \<in> set (elems ix). 0 \<le> i"
      by (auto simp: pick_indices)
    show "stitch_pairs ?is ?ds = stitched ls fs F K"
      by (rule stitch_pairs_partition[OF len rowsQ])
    show "nat (fold max (map fst (stitched ls fs F K)) (- 1) + 1) = length ls"
      by (rule fold_max_stitched[OF lab])
    show "map (\<lambda>j. map_of (rev (stitched ls fs F K)) (int j)) [0..<length ls] =
      map Some (map (\<lambda>j. F (nat (ls ! j)) (fs ! j)) [0..<length ls])"
      using look by (simp add: comp_def)
  qed
  then show ?thesis
    by (simp add: mat_def)
qed


subsection \<open>The call of a switch on a matrix given by its rows\<close>

lemma zip_map_upt_nth:
  "zip (map G [0..<length ms]) ms = map (\<lambda>g. (G g, ms ! g)) [0..<length ms]"
  by (rule nth_equalityI) simp_all

lemma call_switched_mat:
  assumes "\<forall>r \<in> set rs. length r = Suc D"
  shows "call (SwitchedMeanFunction ms) (mat (Suc D) rs) =
     (if \<exists>r \<in> set rs. truncate (last r) < - (2 ^ 31) \<or> 2 ^ 31 \<le> truncate (last r) then Inl Unsupported
      else if length ms < 1 then Inl InvalidArgument
      else if \<exists>p \<in> set (map (\<lambda>r. truncate (last r)) rs). p < 0 \<or> int (length ms) \<le> p
        then Inl IndexOutOfRange
      else and_then
             (sequence (map (\<lambda>g. call (ms ! g)
                 (mat D (pick (map (\<lambda>r. truncate (last r)) rs) (map butlast rs) g))) [0..<length ms]))
             (\<lambda>results. tf_dynamic_stitch
                (map (\<lambda>g. Tensor [length (pick (map (\<lambda>r. truncate (last r)) rs) (map int [0..<length rs]) g)]
                           (pick (map (\<lambda>r. truncate (last r)) rs) (map int [0..<length rs]) g))
                   [0..<length ms])
                results))"
proof -
  let ?ls = "map (\<lambda>r. truncate (last r)) rs" and ?fs = "map butlast rs"
  let ?K = "length ms"
  have frows: "\<forall>r \<in> set ?fs. length r = D"
    using assms by auto
  have p1: "tf_dynamic_partition (mat D ?fs) (Tensor [length rs] ?ls) ?K =
     (if ?K < 1 then Inl InvalidArgument
      else if \<exists>p \<in> set ?ls. p < 0 \<or> int ?K \<le> p then Inl IndexOutOfRange
      else Inr (map (\<lambda>g. mat D (pick ?ls ?fs g)) [0..<?K]))"
    using partition_mat[OF frows, of ?ls ?K] by simp
  have rg: "tf_range 0 (int (tf_size (Tensor [length rs] ?ls))) = Inr (Tensor [length rs] (map int [0..<length rs]))"
    using upto_as_upt[of "length rs"] by (simp add: tf_range_def tf_size_def)
  have p2: "tf_dynamic_partition (Tensor [length rs] (map int [0..<length rs])) (Tensor [length rs] ?ls) ?K =
     (if ?K < 1 then Inl InvalidArgument
      else if \<exists>p \<in> set ?ls. p < 0 \<or> int ?K \<le> p then Inl IndexOutOfRange
      else Inr (map (\<lambda>g. Tensor [length (pick ?ls (map int [0..<length rs]) g)]
                           (pick ?ls (map int [0..<length rs]) g)) [0..<?K]))"
    using partition_vec[of ?ls "map int [0..<length rs]" ?K] by simp
  have zz: "map (\<lambda>(x, m). call m x) (zip (map (\<lambda>g. mat D (pick ?ls ?fs g)) [0..<?K]) ms) =
      map (\<lambda>g. call (ms ! g) (mat D (pick ?ls ?fs g))) [0..<?K]"
    by (simp add: zip_map_upt_nth comp_def)
  show ?thesis
  proof (cases "\<exists>r \<in> set rs. truncate (last r) < - (2 ^ 31) \<or> 2 ^ 31 \<le> truncate (last r)")
    case True
    then show ?thesis
      using switch_split_mat[OF assms] by simp
  next
    case False
    then have sp: "switch_split (mat (Suc D) rs) = Inr (Tensor [length rs] ?ls, mat D ?fs)"
      using switch_split_mat[OF assms] by simp
    show ?thesis
    proof (cases "?K < 1 \<or> (\<exists>p \<in> set ?ls. p < 0 \<or> int ?K \<le> p)")
      case True
      then show ?thesis
        using False sp p1 by auto
    next
      case ok: False
      then have q1: "tf_dynamic_partition (mat D ?fs) (Tensor [length rs] ?ls) ?K =
          Inr (map (\<lambda>g. mat D (pick ?ls ?fs g)) [0..<?K])"
        and q2: "tf_dynamic_partition (Tensor [length rs] (map int [0..<length rs])) (Tensor [length rs] ?ls) ?K =
          Inr (map (\<lambda>g. Tensor [length (pick ?ls (map int [0..<length rs]) g)]
                           (pick ?ls (map int [0..<length rs]) g)) [0..<?K])"
        using p1 p2 by auto
      have "call (SwitchedMeanFunction ms) (mat (Suc D) rs) =
          and_then (sequence (map (\<lambda>g. call (ms ! g) (mat D (pick ?ls ?fs g))) [0..<?K]))
             (\<lambda>results. tf_dynamic_stitch
                (map (\<lambda>g. Tensor [length (pick ?ls (map int [0..<length rs]) g)]
                           (pick ?ls (map int [0..<length rs]) g)) [0..<?K]) results)"
        by (simp only: call.simps sp and_then_Inr prod.case q1 zz rg q2)
      then show ?thesis
        using False ok by simp
    qed
  qed
qed


section \<open>Every concrete mean function works row by row\<close>

lemma rowwiseI:
  assumes "\<And>D rs Y. \<forall>r \<in> set rs. length r = D \<Longrightarrow> call m (mat D rs) = Inr Y \<Longrightarrow>
     \<exists>Q f. (\<forall>r \<in> set rs. length (f r) = Q) \<and>
           (\<forall>rs'. set rs' \<subseteq> set rs \<longrightarrow> call m (mat D rs') = Inr (mat Q (map f rs')))"
  shows "rowwise m"
  using assms unfolding rowwise_def by blast

lemma rowwise_MeanFunction: "rowwise MeanFunction"
  by (simp add: rowwise_def)

lemma rowwise_Identity: "rowwise (Identity d)"
proof (rule rowwiseI)
  fix D and rs :: "real list list" and Y :: "real tensor"
  assume rows: "\<forall>r \<in> set rs. length r = D"
  have "(\<forall>r \<in> set rs. length ((\<lambda>r. r) r) = D) \<and>
      (\<forall>rs'. set rs' \<subseteq> set rs \<longrightarrow> call (Identity d) (mat D rs') = Inr (mat D (map (\<lambda>r. r) rs')))"
    using rows by simp
  then show "\<exists>Q f. (\<forall>r \<in> set rs. length (f r) = Q) \<and>
      (\<forall>rs'. set rs' \<subseteq> set rs \<longrightarrow> call (Identity d) (mat D rs') = Inr (mat Q (map f rs')))"
    by (intro exI[of _ D] exI[of _ "\<lambda>r. r"])
qed

lemma concat_map_const: "concat (map (\<lambda>_. v) rs) = concat (replicate (length rs) v)"
  by (induction rs) simp_all

lemma rowwise_Constant:
  assumes "concrete (Constant c)"
  shows "rowwise (Constant c)"
proof (rule rowwiseI)
  fix D and rs :: "real list list" and Y :: "real tensor"
  from assms obtain q where sh: "shape c = [1, q]" and wf: "wf_tensor c"
    by (cases "shape c" rule: list.exhaust; cases "tl (shape c)" rule: list.exhaust) auto
  have len: "length (elems c) = q"
    using wf sh by (simp add: wf_tensor_def)
  have "call (Constant c) (mat D rs') = Inr (mat q (map (\<lambda>_. elems c) rs'))" for rs' :: "real list list"
    using sh tile_row[OF len, of "length rs'"]
    by (simp add: tf_shape_at_def tf_tile_def mat_def concat_map_const)
  then have "(\<forall>r \<in> set rs. length ((\<lambda>_. elems c) r) = q) \<and>
      (\<forall>rs'. set rs' \<subseteq> set rs \<longrightarrow> call (Constant c) (mat D rs') = Inr (mat q (map (\<lambda>_. elems c) rs')))"
    using len by simp
  then show "\<exists>Q f. (\<forall>r \<in> set rs. length (f r) = Q) \<and>
      (\<forall>rs'. set rs' \<subseteq> set rs \<longrightarrow> call (Constant c) (mat D rs') = Inr (mat Q (map f rs')))"
    by (intro exI[of _ q] exI[of _ "\<lambda>_. elems c"])
qed

lemma concat_replicate_replicate: "concat (replicate n (replicate q x)) = replicate (n * q) x"
  by (induction n) (simp_all add: replicate_add)

lemma rowwise_Zero: "rowwise (Zero d)"
proof (rule rowwiseI)
  fix D rs Y
  assume call: "call (Zero d) (mat D rs) = Inr Y"
  then have d: "0 \<le> d"
    by (auto simp: tf_zeros_def split: if_splits)
  have "call (Zero d) (mat D rs') = Inr (mat (nat d) (map (\<lambda>_. replicate (nat d) 0) rs'))"
    for rs' :: "real list list"
    using d by (simp add: tf_zeros_def mat_def concat_map_const concat_replicate_replicate)
  then have "(\<forall>r \<in> set rs. length ((\<lambda>_. replicate (nat d) (0::real)) r) = nat d) \<and>
      (\<forall>rs'. set rs' \<subseteq> set rs \<longrightarrow>
         call (Zero d) (mat D rs') = Inr (mat (nat d) (map (\<lambda>_. replicate (nat d) 0) rs')))"
    by simp
  then show "\<exists>Q f. (\<forall>r \<in> set rs. length (f r) = Q) \<and>
      (\<forall>rs'. set rs' \<subseteq> set rs \<longrightarrow> call (Zero d) (mat D rs') = Inr (mat Q (map f rs')))"
    by (intro exI[of _ "nat d"] exI[of _ "\<lambda>_. replicate (nat d) 0"])
qed

lemma rowwise_Linear:
  assumes "concrete (Linear A b)"
  shows "rowwise (Linear A b)"
proof (rule rowwiseI)
  fix D rs Y
  assume rows: "\<forall>r \<in> set rs. length r = D" and call: "call (Linear A b) (mat D rs) = Inr Y"
  from assms obtain d q where sh: "shape A = [d, q]" and shb: "shape b = [q]" and wfb: "wf_tensor b"
    by (cases "shape A" rule: list.exhaust; cases "tl (shape A)" rule: list.exhaust) auto
  have lenb: "length (elems b) = q"
    using wfb shb by (simp add: wf_tensor_def)
  have b: "b = Tensor [q] (elems b)"
    using shb by (cases b) simp
  have D: "D = d"
    using call matmul_mat[OF sh rows] by (auto split: if_splits)
  let ?f = "\<lambda>r. map2 (+) (vecmat exact_dot q r A) (elems b)"
  have "call (Linear A b) (mat D rs') = Inr (mat q (map ?f rs'))" if "set rs' \<subseteq> set rs" for rs'
  proof -
    have rows': "\<forall>r \<in> set rs'. length r = d"
      using that rows D by blast
    have yrows: "\<forall>r \<in> set (map (\<lambda>r. vecmat exact_dot q r A) rs'). length r = q"
      by (auto simp: vecmat_def)
    have "tf_add (mat q (map (\<lambda>r. vecmat exact_dot q r A) rs')) b = Inr (mat q (map ?f rs'))"
      using add_vector[OF yrows lenb] b by (simp add: comp_def)
    then show ?thesis
      using matmul_mat[OF sh rows'] D by simp
  qed
  moreover have "\<forall>r \<in> set rs. length (?f r) = q"
    using lenb by (simp add: vecmat_def)
  ultimately have "(\<forall>r \<in> set rs. length (?f r) = q) \<and>
      (\<forall>rs'. set rs' \<subseteq> set rs \<longrightarrow> call (Linear A b) (mat D rs') = Inr (mat q (map ?f rs')))"
    by simp
  then show "\<exists>Q f. (\<forall>r \<in> set rs. length (f r) = Q) \<and>
      (\<forall>rs'. set rs' \<subseteq> set rs \<longrightarrow> call (Linear A b) (mat D rs') = Inr (mat Q (map f rs')))"
    by (intro exI[of _ q] exI[of _ ?f])
qed

lemma rowwiseD:
  assumes "rowwise m" "\<forall>r \<in> set rs. length r = D" "call m (mat D rs) = Inr Y"
  shows "\<exists>Q f. (\<forall>r \<in> set rs. length (f r) = Q) \<and>
           (\<forall>rs'. set rs' \<subseteq> set rs \<longrightarrow> call m (mat D rs') = Inr (mat Q (map f rs')))"
proof -
  from assms(1) have "(\<forall>r \<in> set rs. length r = D) \<and> call m (mat D rs) = Inr Y \<longrightarrow>
        (\<exists>Q f. (\<forall>r \<in> set rs. length (f r) = Q) \<and>
           (\<forall>rs'. set rs' \<subseteq> set rs \<longrightarrow> call m (mat D rs') = Inr (mat Q (map f rs'))))"
    unfolding rowwise_def by (elim allE)
  with assms(2,3) show ?thesis by (elim impE) (rule conjI)
qed

lemma map2_map_map: "map2 h (map f xs) (map g xs) = map (\<lambda>x. h (f x) (g x)) xs"
  by (induction xs) simp_all

lemma length_bro:
  assumes "length r1 = q \<or> length r1 = 1" "length r2 = q \<or> length r2 = 1"
  shows "length (bro h q r1 r2) = q"
  using length_brow[OF assms(1)] length_brow[OF assms(2)] by (simp add: bro_def)

lemma rowwise_binary:
  assumes f: "rowwise f" and g: "rowwise g"
    and m: "\<And>X. call m X = and_then (call f X) (\<lambda>y1. and_then (call g X) (\<lambda>y2. tf_elementwise h y1 y2))"
  shows "rowwise m"
proof (rule rowwiseI)
  fix D and rs :: "real list list" and Y :: "real tensor"
  assume rows: "\<forall>r \<in> set rs. length r = D" and call: "call m (mat D rs) = Inr Y"
  from call obtain F G where F: "call f (mat D rs) = Inr F" and G: "call g (mat D rs) = Inr G"
    and Y: "tf_elementwise h F G = Inr Y"
    unfolding m by (auto simp: and_then_eq_Inr)
  from rowwiseD[OF f rows F] obtain Q1 f1 where
    l1: "\<forall>r \<in> set rs. length (f1 r) = Q1"
    and c1': "\<forall>rs'. set rs' \<subseteq> set rs \<longrightarrow> call f (mat D rs') = Inr (mat Q1 (map f1 rs'))"
    by (elim exE conjE)
  from rowwiseD[OF g rows G] obtain Q2 f2 where
    l2: "\<forall>r \<in> set rs. length (f2 r) = Q2"
    and c2': "\<forall>rs'. set rs' \<subseteq> set rs \<longrightarrow> call g (mat D rs') = Inr (mat Q2 (map f2 rs'))"
    by (elim exE conjE)
  have c1: "call f (mat D rs') = Inr (mat Q1 (map f1 rs'))" if "set rs' \<subseteq> set rs" for rs'
    using c1' that by simp
  have c2: "call g (mat D rs') = Inr (mat Q2 (map f2 rs'))" if "set rs' \<subseteq> set rs" for rs'
    using c2' that by simp
  have ew: "tf_elementwise h (mat Q1 (map f1 rs')) (mat Q2 (map f2 rs')) =
     (if Q1 = Q2 \<or> Q2 = 1 then Inr (mat Q1 (map (\<lambda>r. bro h Q1 (f1 r) (f2 r)) rs'))
      else if Q1 = 1 then Inr (mat Q2 (map (\<lambda>r. bro h Q2 (f1 r) (f2 r)) rs'))
      else Inl ShapeMismatch)" if "set rs' \<subseteq> set rs" for rs'
  proof -
    have "\<forall>r \<in> set (map f1 rs'). length r = Q1" "\<forall>r \<in> set (map f2 rs'). length r = Q2"
      using that l1 l2 by auto
    from elementwise_mat[OF this, of h] show ?thesis
      by (simp add: map2_map_map)
  qed
  have FG: "F = mat Q1 (map f1 rs)" "G = mat Q2 (map f2 rs)"
    using c1[of rs] c2[of rs] F G by simp_all
  have compat: "Q1 = Q2 \<or> Q2 = 1 \<or> Q1 = 1"
    using Y ew[of rs] unfolding FG by (auto split: if_splits)
  define Q where "Q = (if Q1 = Q2 \<or> Q2 = 1 then Q1 else Q2)"
  have res: "call m (mat D rs') = Inr (mat Q (map (\<lambda>r. bro h Q (f1 r) (f2 r)) rs'))"
    if "set rs' \<subseteq> set rs" for rs'
    unfolding m using c1[OF that] c2[OF that] ew[OF that] compat by (auto simp: Q_def)
  have len: "length (bro h Q (f1 r) (f2 r)) = Q" if "r \<in> set rs" for r
  proof (rule length_bro)
    show "length (f1 r) = Q \<or> length (f1 r) = 1"
      using that l1 compat by (auto simp: Q_def)
    show "length (f2 r) = Q \<or> length (f2 r) = 1"
      using that l2 compat by (auto simp: Q_def)
  qed
  have "(\<forall>r \<in> set rs. length (bro h Q (f1 r) (f2 r)) = Q) \<and>
      (\<forall>rs'. set rs' \<subseteq> set rs \<longrightarrow> call m (mat D rs') = Inr (mat Q (map (\<lambda>r. bro h Q (f1 r) (f2 r)) rs')))"
    using len res by simp
  then show "\<exists>Q f. (\<forall>r \<in> set rs. length (f r) = Q) \<and>
      (\<forall>rs'. set rs' \<subseteq> set rs \<longrightarrow> call m (mat D rs') = Inr (mat Q (map f rs')))"
    by (intro exI[of _ Q] exI[of _ "\<lambda>r. bro h Q (f1 r) (f2 r)"])
qed

lemma rowwise_Additive: "rowwise f \<Longrightarrow> rowwise g \<Longrightarrow> rowwise (Additive f g)"
  by (rule rowwise_binary[where h = "(+)"]) (simp_all add: tf_add_def)

lemma rowwise_Product: "rowwise f \<Longrightarrow> rowwise g \<Longrightarrow> rowwise (Product f g)"
  by (rule rowwise_binary[where h = "(*)"]) (simp_all add: tf_multiply_def)


lemma pick_map_filter: "pick (map l rs) (map h rs) g = map h (filter (\<lambda>r. l r = int g) rs)"
  by (simp add: pick_def zip_map_same filter_map comp_def)

lemma call_switched_width0: "call (SwitchedMeanFunction ms) (mat 0 rs) = Inl IndexOutOfRange"
  by (simp add: switch_split_def tf_shape_at_def tf_gather_def tf_transpose_def)

lemma dynamic_stitch_InrD:
  assumes "tf_dynamic_stitch indices data_l = Inr Y"
  shows "\<forall>(ix, d) \<in> set (zip indices data_l).
           drop (length (shape ix)) (shape d) = drop (length (shape (hd indices))) (shape (hd data_l))"
  using assms by (fastforce simp: tf_dynamic_stitch_def Let_def split: if_splits)

lemma call_switched_groups:
  assumes "\<forall>r \<in> set rs. length r = Suc D"
  shows "call (SwitchedMeanFunction ms) (mat (Suc D) rs) =
     (if \<exists>r \<in> set rs. truncate (last r) < - (2 ^ 31) \<or> 2 ^ 31 \<le> truncate (last r) then Inl Unsupported
      else if length ms < 1 then Inl InvalidArgument
      else if \<exists>r \<in> set rs. truncate (last r) < 0 \<or> int (length ms) \<le> truncate (last r)
        then Inl IndexOutOfRange
      else and_then
             (sequence (map (\<lambda>g. call (ms ! g) (mat D (group_rows rs g))) [0..<length ms]))
             (\<lambda>results. tf_dynamic_stitch
                (map (\<lambda>g. Tensor [length (pick (map (\<lambda>r. truncate (last r)) rs) (map int [0..<length rs]) g)]
                           (pick (map (\<lambda>r. truncate (last r)) rs) (map int [0..<length rs]) g))
                   [0..<length ms])
                results))"
  unfolding call_switched_mat[OF assms] group_rows_def label_def pick_map_filter
  by simp

lemma call_switched_ok:
  assumes rows: "\<forall>r \<in> set rs. length r = Suc D" and K: "0 < length ms"
    and lab: "labels_ok (length ms) rs"
  shows "call (SwitchedMeanFunction ms) (mat (Suc D) rs) =
      and_then
             (sequence (map (\<lambda>g. call (ms ! g) (mat D (group_rows rs g))) [0..<length ms]))
             (\<lambda>results. tf_dynamic_stitch
                (map (\<lambda>g. Tensor [length (pick (map (\<lambda>r. truncate (last r)) rs) (map int [0..<length rs]) g)]
                           (pick (map (\<lambda>r. truncate (last r)) rs) (map int [0..<length rs]) g))
                   [0..<length ms])
                results)"
proof -
  have 1: "\<not> (\<exists>r \<in> set rs. truncate (last r) < - (2 ^ 31) \<or> 2 ^ 31 \<le> truncate (last r))"
    using lab unfolding labels_ok_def label_def by fastforce
  have 2: "\<not> (\<exists>r \<in> set rs. truncate (last r) < 0 \<or> int (length ms) \<le> truncate (last r))"
    using lab unfolding labels_ok_def label_def by fastforce
  have 3: "\<not> length ms < 1" using K by simp
  show ?thesis
    unfolding call_switched_groups[OF rows] by (simp only: 1 2 3 if_False)
qed

lemma call_switched_InrD:
  assumes rows: "\<forall>r \<in> set rs. length r = Suc D"
    and call: "call (SwitchedMeanFunction ms) (mat (Suc D) rs) = Inr Y"
  shows "0 < length ms \<and> labels_ok (length ms) rs"
proof -
  have 1: "\<not> (\<exists>r \<in> set rs. truncate (last r) < - (2 ^ 31) \<or> 2 ^ 31 \<le> truncate (last r))"
    using call unfolding call_switched_groups[OF rows] by (auto split: if_splits)
  have 3: "\<not> length ms < 1"
    using call unfolding call_switched_groups[OF rows] by (auto split: if_splits)
  have 2: "\<not> (\<exists>r \<in> set rs. truncate (last r) < 0 \<or> int (length ms) \<le> truncate (last r))"
    using call unfolding call_switched_groups[OF rows] by (auto split: if_splits)
  show ?thesis
    using 1 2 3 unfolding labels_ok_def label_def by fastforce
qed

lemma group_rows_length:
  "\<forall>r \<in> set rs. length r = Suc D \<Longrightarrow> \<forall>r \<in> set (group_rows rs g). length r = D"
  by (auto simp: group_rows_def label_def)

lemma group_rows_mono: "set rs' \<subseteq> set rs \<Longrightarrow> set (group_rows rs' g) \<subseteq> set (group_rows rs g)"
  by (auto simp: group_rows_def label_def)

lemma group_rows_member:
  "r \<in> set rs \<Longrightarrow> truncate (last r) = int g \<Longrightarrow> butlast r \<in> set (group_rows rs g)"
  by (auto simp: group_rows_def label_def)


lemma switched_result:
  assumes rows: "\<forall>r \<in> set rs. length r = Suc D" and K: "0 < length ms"
    and lab: "labels_ok (length ms) rs"
    and calls: "\<forall>g < length ms. call (ms ! g) (mat D (group_rows rs g)) = Inr (mat Q (map (ff g) (group_rows rs g)))"
    and lens: "\<forall>g < length ms. \<forall>r \<in> set (group_rows rs g). length (ff g r) = Q"
  shows "call (SwitchedMeanFunction ms) (mat (Suc D) rs) =
           Inr (mat Q (map (\<lambda>r. ff (nat (truncate (last r))) (butlast r)) rs))"
proof -
  let ?ls = "map (\<lambda>r. truncate (last r)) rs" and ?fs = "map butlast rs"
  let ?K = "length ms"
  have grp: "group_rows rs g = pick ?ls ?fs g" for g
    by (simp add: group_rows_def label_def pick_map_filter)
  have seq: "sequence (map (\<lambda>g. call (ms ! g) (mat D (group_rows rs g))) [0..<?K]) =
      Inr (map (\<lambda>g. mat Q (map (ff g) (group_rows rs g))) [0..<?K])"
    using calls by (intro sequence_map_Inr) simp
  have labs: "\<forall>l \<in> set ?ls. 0 \<le> l \<and> l < int ?K"
    using lab by (auto simp: labels_ok_def label_def)
  have rowsQ: "\<forall>g < ?K. \<forall>j \<in> set (positions ?ls g). length (ff g (?fs ! j)) = Q"
  proof (intro allI impI ballI)
    fix g j assume g: "g < ?K" and j: "j \<in> set (positions ?ls g)"
    then have jl: "j < length rs" and "map (\<lambda>r. truncate (last r)) rs ! j = int g"
      by (simp_all add: set_positions)
    then have "j < length rs" "truncate (last (rs ! j)) = int g"
      by simp_all
    then have "butlast (rs ! j) \<in> set (group_rows rs g)"
      by (intro group_rows_member) simp_all
    then show "length (ff g (?fs ! j)) = Q"
      using lens g \<open>j < length rs\<close> by simp
  qed
  have st: "tf_dynamic_stitch
           (map (\<lambda>g. Tensor [length (pick ?ls (map int [0..<length ?ls]) g)]
                      (pick ?ls (map int [0..<length ?ls]) g)) [0..<?K])
           (map (\<lambda>g. mat Q (map (ff g) (pick ?ls ?fs g))) [0..<?K]) =
         Inr (mat Q (map (\<lambda>j. ff (nat (?ls ! j)) (?fs ! j)) [0..<length ?ls]))"
    by (rule stitch_partition[OF K labs _ rowsQ]) simp
  have "map (\<lambda>j. ff (nat (?ls ! j)) (?fs ! j)) [0..<length ?ls] =
      map (\<lambda>r. ff (nat (truncate (last r))) (butlast r)) rs"
    by (rule nth_equalityI) simp_all
  then have st': "tf_dynamic_stitch
           (map (\<lambda>g. Tensor [length (pick ?ls (map int [0..<length rs]) g)]
                      (pick ?ls (map int [0..<length rs]) g)) [0..<?K])
           (map (\<lambda>g. mat Q (map (ff g) (group_rows rs g))) [0..<?K]) =
         Inr (mat Q (map (\<lambda>r. ff (nat (truncate (last r))) (butlast r)) rs))"
    using st by (simp add: grp)
  show ?thesis
    unfolding call_switched_ok[OF rows K lab] seq and_then_Inr st' ..
qed

lemma rowwise_Switched:
  assumes IH: "\<And>m. m \<in> set ms \<Longrightarrow> rowwise m"
  shows "rowwise (SwitchedMeanFunction ms)"
proof (rule rowwiseI)
  fix D' and rs :: "real list list" and Y :: "real tensor"
  assume rows': "\<forall>r \<in> set rs. length r = D'"
    and call: "call (SwitchedMeanFunction ms) (mat D' rs) = Inr Y"
  let ?K = "length ms"
  from call obtain D where D': "D' = Suc D"
    using call_switched_width0[of ms rs] by (cases D') simp_all
  have rows: "\<forall>r \<in> set rs. length r = Suc D"
    using rows' D' by simp
  have call: "call (SwitchedMeanFunction ms) (mat (Suc D) rs) = Inr Y"
    using call D' by simp
  from call_switched_InrD[OF rows call] have K: "0 < ?K" and lab: "labels_ok ?K rs"
    by simp_all
  from call obtain results where
    seq: "sequence (map (\<lambda>g. call (ms ! g) (mat D (group_rows rs g))) [0..<?K]) = Inr results"
    and st: "tf_dynamic_stitch
                (map (\<lambda>g. Tensor [length (pick (map (\<lambda>r. truncate (last r)) rs) (map int [0..<length rs]) g)]
                           (pick (map (\<lambda>r. truncate (last r)) rs) (map int [0..<length rs]) g))
                   [0..<?K]) results = Inr Y"
    unfolding call_switched_ok[OF rows K lab] by (auto simp: and_then_eq_Inr)
  from sequence_map_InrD[OF seq] have lres: "length results = ?K"
    and res: "\<forall>g < ?K. call (ms ! g) (mat D (group_rows rs g)) = Inr (results ! g)"
    by simp_all
  have ex: "\<exists>p. g < ?K \<longrightarrow> (\<forall>r \<in> set (group_rows rs g). length (snd p r) = fst p) \<and>
      (\<forall>rs'. set rs' \<subseteq> set (group_rows rs g) \<longrightarrow>
         call (ms ! g) (mat D rs') = Inr (mat (fst p) (map (snd p) rs')))" for g
  proof (cases "g < ?K")
    case False
    then show ?thesis by simp
  next
    case True
    then have rw: "rowwise (ms ! g)" using IH by simp
    have cg: "call (ms ! g) (mat D (group_rows rs g)) = Inr (results ! g)"
      using res True by simp
    from rowwiseD[OF rw group_rows_length[OF rows] cg]
    obtain Q f where "(\<forall>r \<in> set (group_rows rs g). length (f r) = Q) \<and>
           (\<forall>rs'. set rs' \<subseteq> set (group_rows rs g) \<longrightarrow>
              call (ms ! g) (mat D rs') = Inr (mat Q (map f rs')))"
      by (elim exE)
    then show ?thesis
      by (intro exI[of _ "(Q, f)"]) simp
  qed
  have "\<forall>g. \<exists>p. g < ?K \<longrightarrow> (\<forall>r \<in> set (group_rows rs g). length (snd p r) = fst p) \<and>
      (\<forall>rs'. set rs' \<subseteq> set (group_rows rs g) \<longrightarrow>
         call (ms ! g) (mat D rs') = Inr (mat (fst p) (map (snd p) rs')))"
    by (rule allI) (rule ex)
  from choice[OF this] obtain pf where pf:
    "\<forall>g. g < ?K \<longrightarrow> (\<forall>r \<in> set (group_rows rs g). length (snd (pf g) r) = fst (pf g)) \<and>
      (\<forall>rs'. set rs' \<subseteq> set (group_rows rs g) \<longrightarrow>
         call (ms ! g) (mat D rs') = Inr (mat (fst (pf g)) (map (snd (pf g)) rs')))"
    by (elim exE)
  define QQ where "QQ g = fst (pf g)" for g
  define ff where "ff g = snd (pf g)" for g
  have len_g: "length (ff g r) = QQ g" if "g < ?K" "r \<in> set (group_rows rs g)" for g r
    using pf that by (simp add: QQ_def ff_def)
  have call_g: "call (ms ! g) (mat D rs') = Inr (mat (QQ g) (map (ff g) rs'))"
    if "g < ?K" "set rs' \<subseteq> set (group_rows rs g)" for g rs'
    using pf that by (simp add: QQ_def ff_def)
  have results: "results ! g = mat (QQ g) (map (ff g) (group_rows rs g))" if "g < ?K" for g
    using res call_g[OF that, of "group_rows rs g"] that by simp
  have results_eq: "results = map (\<lambda>g. mat (QQ g) (map (ff g) (group_rows rs g))) [0..<?K]"
    using lres results by (intro nth_equalityI) simp_all
  have QQ: "QQ g = QQ 0" if "g < ?K" for g
  proof -
    let ?is = "map (\<lambda>g. Tensor [length (pick (map (\<lambda>r. truncate (last r)) rs) (map int [0..<length rs]) g)]
                           (pick (map (\<lambda>r. truncate (last r)) rs) (map int [0..<length rs]) g))
                   [0..<?K]"
    let ?I = "\<lambda>g. Tensor [length (pick (map (\<lambda>r. truncate (last r)) rs) (map int [0..<length rs]) g)]
                           (pick (map (\<lambda>r. truncate (last r)) rs) (map int [0..<length rs]) g)"
    let ?R = "\<lambda>g. mat (QQ g) (map (ff g) (group_rows rs g))"
    have z: "zip ?is results = map (\<lambda>g. (?I g, ?R g)) [0..<?K]"
      unfolding results_eq by (rule zip_map_same)
    have hd: "hd ?is = ?I 0" "hd results = ?R 0"
      unfolding results_eq using K by (simp_all add: hd_map upt_conv_Cons)
    have "(?I g, ?R g) \<in> set (zip ?is results)"
      unfolding z using that by simp
    with dynamic_stitch_InrD[OF st]
    have "drop (length (shape (?I g))) (shape (?R g)) =
        drop (length (shape (hd ?is))) (shape (hd results))"
      by fast
    then show ?thesis
      unfolding hd by simp
  qed
  define Q where "Q = QQ 0"
  let ?F = "\<lambda>r. ff (nat (truncate (last r))) (butlast r)"
  have lenF: "length (?F r) = Q" if "r \<in> set rs" for r
  proof -
    have g: "nat (truncate (last r)) < ?K" and "truncate (last r) = int (nat (truncate (last r)))"
      using lab that by (auto simp: labels_ok_def label_def)
    then have "butlast r \<in> set (group_rows rs (nat (truncate (last r))))"
      using that by (intro group_rows_member) simp_all
    from len_g[OF g this] show ?thesis
      using QQ[OF g] by (simp add: Q_def)
  qed
  have callF: "call (SwitchedMeanFunction ms) (mat (Suc D) rs') = Inr (mat Q (map ?F rs'))"
    if sub: "set rs' \<subseteq> set rs" for rs'
  proof (rule switched_result)
    show "\<forall>r \<in> set rs'. length r = Suc D"
      using sub rows by blast
    show "0 < ?K" by (rule K)
    show "labels_ok ?K rs'"
      using lab sub by (auto simp: labels_ok_def label_def)
    show "\<forall>g < ?K. call (ms ! g) (mat D (group_rows rs' g)) = Inr (mat Q (map (ff g) (group_rows rs' g)))"
      using call_g group_rows_mono[OF sub] QQ by (simp add: Q_def)
    show "\<forall>g < ?K. \<forall>r \<in> set (group_rows rs' g). length (ff g r) = Q"
      using len_g group_rows_mono[OF sub] QQ by (auto simp: Q_def)
  qed
  have "(\<forall>r \<in> set rs. length (?F r) = Q) \<and>
      (\<forall>rs'. set rs' \<subseteq> set rs \<longrightarrow> call (SwitchedMeanFunction ms) (mat D' rs') = Inr (mat Q (map ?F rs')))"
    using lenF callF D' by simp
  then show "\<exists>Q f. (\<forall>r \<in> set rs. length (f r) = Q) \<and>
      (\<forall>rs'. set rs' \<subseteq> set rs \<longrightarrow> call (SwitchedMeanFunction ms) (mat D' rs') = Inr (mat Q (map f rs')))"
    by (intro exI[of _ Q] exI[of _ ?F])
qed

lemma concrete_rowwise: "concrete m \<Longrightarrow> rowwise m"
proof (induction m)
  case MeanFunction
  then show ?case by simp
next
  case (Linear A b)
  then show ?case by (rule rowwise_Linear)
next
  case (Identity d)
  show ?case by (rule rowwise_Identity)
next
  case (Constant c)
  then show ?case by (rule rowwise_Constant)
next
  case (Zero d)
  show ?case by (rule rowwise_Zero)
next
  case (SwitchedMeanFunction ms)
  show ?case
  proof (rule rowwise_Switched)
    fix m assume "m \<in> set ms"
    then show "rowwise m"
      using SwitchedMeanFunction by (simp add: list_all_iff)
  qed
next
  case (Additive f g)
  then show ?case by (simp add: rowwise_Additive)
next
  case (Product f g)
  then show ?case by (simp add: rowwise_Product)
qed

section \<open>Rows of a tensor, calls of a switch\<close>

lemma rows_mat:
  assumes "wf_tensor X" "shape X = [n, d]"
  shows "X = mat d (rows X)" "\<forall>r \<in> set (rows X). length r = d" "length (rows X) = n"
  using tensor_as_mat[OF assms] assms(2) by (simp_all add: rows_def)

lemma row_rows:
  assumes "wf_tensor X" "shape X = [n, d]" "i < n"
  shows "row X i = rows X ! i"
  using assms by (simp add: row_def rows_def nth_chop)

lemma mat_inject:
  assumes "mat q rs = mat q' rs'" "\<forall>r \<in> set rs. length r = q" "\<forall>r \<in> set rs'. length r = q'"
  shows "q = q' \<and> rs = rs'"
proof -
  from assms(1) have q: "q = q'" and l: "length rs = length rs'" and c: "concat rs = concat rs'"
    by (simp_all add: mat_def)
  have "rs = chop (length rs) q (concat rs)"
    using chop_concat[OF assms(2)] by simp
  also have "\<dots> = rs'"
    using chop_concat[OF assms(3)] q l c by simp
  finally show ?thesis using q by simp
qed

lemma group_mat:
  assumes "shape X = [N, Suc D]"
  shows "label_group X g = mat D (group_rows (rows X) g)"
  using assms by (simp add: label_group_def)

lemma entry_last:
  assumes "wf_tensor X" "shape X = [N, Suc D]" "i < N"
  shows "entry X i D = last (row X i)"
proof -
  note rm = rows_mat[OF assms(1,2)]
  have r: "row X i = rows X ! i"
    by (rule row_rows[OF assms])
  have len: "length (rows X ! i) = Suc D"
    using rm(2,3) assms(3) by simp
  have "entry X i D = concat (rows X) ! (i * Suc D + D)"
    using rm(1) assms(2) by (metis elems_mat entry_def nth_Cons_0 nth_Cons_Suc One_nat_def)
  also have "\<dots> = rows X ! i ! D"
    using nth_concat_uniform[OF rm(2), of i D] assms(3) rm(3) by simp
  also have "\<dots> = last (rows X ! i)"
    using len by (metis diff_Suc_1 last_conv_nth length_0_conv nat.simps(3))
  finally show ?thesis using r by simp
qed

lemma tensor_from_rows:
  assumes "wf_tensor Y" "shape Y = [n, q]"
  shows "Y = Tensor [n, q] (concat (map (row Y) [0..<n]))"
proof -
  note rm = rows_mat[OF assms]
  have "rows Y = map (row Y) [0..<n]"
    using rm(3) row_rows[OF assms] by (intro nth_equalityI) simp_all
  then show ?thesis
    using rm(1,3) by (simp add: mat_def)
qed

lemma call_via_switch_calls:
  "call (SwitchedMeanFunction ms) X =
     and_then (switch_calls ms X) (\<lambda>calls.
     and_then (sequence (map (\<lambda>(x, m). call m x) calls)) (\<lambda>results.
     and_then (switch_split X) (\<lambda>(ind, X').
     and_then (tf_range 0 (int (tf_size ind))) (\<lambda>r.
     and_then (tf_dynamic_partition r ind (length ms)) (\<lambda>partitions.
     tf_dynamic_stitch partitions results)))))"
proof (cases "switch_split X")
  case (Inl e)
  then show ?thesis by (simp add: switch_calls_def)
next
  case (Inr p)
  obtain ind X' where p: "p = (ind, X')" by (cases p)
  show ?thesis
  proof (cases "tf_dynamic_partition X' ind (length ms)")
    case (Inl e)
    then show ?thesis using Inr p by (simp add: switch_calls_def)
  next
    case (Inr x_list)
    then show ?thesis using \<open>switch_split X = Inr p\<close> p by (simp add: switch_calls_def)
  qed
qed

lemma dynamic_stitch_shape:
  assumes "tf_dynamic_stitch indices data_l = Inr Y"
  shows "hd (shape Y) = nat (fold max (map fst (stitch_pairs indices data_l)) (- 1) + 1) \<and> shape Y \<noteq> []"
  using assms by (auto simp: tf_dynamic_stitch_def Let_def split: if_splits)

lemma map_fst_stitch_pairs:
  assumes "length ds = K"
  shows "map fst (stitch_pairs (map (\<lambda>g. Tensor [length (ix g)] (ix g)) [0..<K]) ds) =
         concat (map ix [0..<K])"
proof -
  have z: "zip (map (\<lambda>g. Tensor [length (ix g)] (ix g)) [0..<K]) ds =
      map (\<lambda>g. (Tensor [length (ix g)] (ix g), ds ! g)) [0..<K]"
    using zip_map_upt_nth[of "\<lambda>g. Tensor [length (ix g)] (ix g)" ds] assms by simp
  have "map fst (zip (ix g) (chop (length (ix g)) q es)) = ix g" for g q and es :: "'b list"
    by (simp add: map_fst_zip)
  then show ?thesis
    unfolding stitch_pairs_def z by (simp add: map_concat comp_def)
qed

lemma count_positions:
  assumes "\<forall>l \<in> set ls. 0 \<le> l \<and> l < int K"
  shows "nat (fold max (map int (concat (map (positions ls) [0..<K]))) (- 1) + 1) = length ls"
  using fold_max_stitched[OF assms, of "[]" "\<lambda>_ _. []"] by (simp add: map_fst_stitched)

lemma filter_nth_position:
  assumes "i < length xs" "P (xs ! i)"
  shows "length (filter P (take i xs)) < length (filter P xs)"
    and "filter P xs ! length (filter P (take i xs)) = xs ! i"
proof -
  have "xs = take i xs @ xs ! i # drop (Suc i) xs"
    using assms(1) by (rule id_take_nth_drop)
  then have "filter P xs = filter P (take i xs) @ filter P (xs ! i # drop (Suc i) xs)"
    by (metis filter_append)
  then have eq: "filter P xs = filter P (take i xs) @ xs ! i # filter P (drop (Suc i) xs)"
    using assms(2) by simp
  have "length (filter P xs) =
      length (filter P (take i xs) @ xs ! i # filter P (drop (Suc i) xs))"
    using eq by (rule arg_cong)
  then show "length (filter P (take i xs)) < length (filter P xs)"
    by simp
  have "filter P xs ! length (filter P (take i xs)) =
      (filter P (take i xs) @ xs ! i # filter P (drop (Suc i) xs)) ! length (filter P (take i xs))"
    using eq by (rule arg_cong)
  then show "filter P xs ! length (filter P (take i xs)) = xs ! i"
    by (simp only: nth_append_length)
qed

section \<open>Identity\<close>

text \<open>
  Claim C6. For every input \<open>X\<close>, calling \<open>Identity\<close> returns \<open>X\<close> itself, unchanged,
  whatever \<open>input_dim\<close> is (set or unset) and whatever the shape of \<open>X\<close>: no matrix
  product is formed, so no shape can be refused.
\<close>

theorem Identity_call_returns_input:
  "call (Identity_init d) X = Inr X"
  by (simp add: Identity_init_def)

text \<open>
  Claim C7. Reading \<open>A\<close> or \<open>b\<close> of an \<open>Identity\<close> raises the \<open>ValueError\<close> exactly when
  \<open>input_dim\<close> is \<open>None\<close>, with the message that names \<open>input_dim\<close>; when
  \<open>input_dim = D\<close>, \<open>A\<close> is the \<open>D \<times> D\<close> identity matrix and \<open>b\<close> the zero vector of
  length \<open>D\<close>, both computed from \<open>input_dim\<close> alone.
\<close>

theorem Identity_A_b_properties:
  "((\<exists>s. Identity_A (Identity d) = Inl (ValueError s)) \<longleftrightarrow> d = None) \<and>
   ((\<exists>s. Identity_b (Identity d) = Inl (ValueError s)) \<longleftrightarrow> d = None) \<and>
   Identity_A (Identity None) = Inl (ValueError input_dim_message) \<and>
   Identity_b (Identity None) = Inl (ValueError input_dim_message) \<and>
   take 35 input_dim_message = ''An input_dim needs to be specified '' \<and>
   (\<exists>a. Identity_A (Identity (Some (int D))) = Inr a \<and> shape a = [D, D] \<and> wf_tensor a \<and>
        (\<forall>i < D. \<forall>j < D. entry a i j = (if i = j then 1 else 0))) \<and>
   Identity_b (Identity (Some (int D))) = Inr (Tensor [D] (replicate D 0))"
proof -
  let ?rs = "map (\<lambda>i. map (\<lambda>j. if i = j then 1 else 0 :: real) [0..<D]) [0..<D]"
  have rows: "\<forall>r \<in> set ?rs. length r = D" by auto
  have A: "Identity_A (Identity (Some (int D))) = Inr (Tensor [D, D] (concat ?rs))"
    by (simp add: Identity_A_def tf_eye_def)
  have len: "length (concat ?rs) = D * D"
    by (simp add: length_concat comp_def sum_list_triv)
  have ent: "entry (Tensor [D, D] (concat ?rs)) i j = (if i = j then 1 else 0)"
    if "i < D" "j < D" for i j
    using nth_concat_uniform[OF rows, of i j] that by (simp add: entry_def)
  have 1: "(\<exists>s. Identity_A (Identity d) = Inl (ValueError s)) \<longleftrightarrow> d = None"
    by (cases d) (auto simp: Identity_A_def tf_eye_def)
  have 2: "(\<exists>s. Identity_b (Identity d) = Inl (ValueError s)) \<longleftrightarrow> d = None"
    by (cases d) (auto simp: Identity_b_def tf_zeros_def)
  have 3: "take 35 input_dim_message = ''An input_dim needs to be specified ''"
    by (simp add: input_dim_message_def)
  have 4: "Identity_b (Identity (Some (int D))) = Inr (Tensor [D] (replicate D 0))"
    by (simp add: Identity_b_def tf_zeros_def)
  have 5: "\<exists>a. Identity_A (Identity (Some (int D))) = Inr a \<and> shape a = [D, D] \<and> wf_tensor a \<and>
        (\<forall>i < D. \<forall>j < D. entry a i j = (if i = j then 1 else 0))"
    using A len ent by (simp add: wf_tensor_def)
  show ?thesis
    using 1 2 3 4 5 by (simp add: Identity_A_def Identity_b_def)
qed

theorem Identity_A_b_properties_witness:
  "Identity_A (Identity None) = Inl (ValueError input_dim_message) \<and>
   (\<exists>a. Identity_A (Identity (Some 2)) = Inr a \<and> shape a = [2, 2] \<and>
        entry a 0 0 = 1 \<and> entry a 0 1 = 0 \<and> entry a 1 0 = 0 \<and> entry a 1 1 = 1) \<and>
   Identity_b (Identity (Some 2)) = Inr (Tensor [2] [0, 0])"
  using Identity_A_b_properties[of None 2]
  by (auto simp: numeral_2_eq_2)

text \<open>
  Claim C8. Assigning to \<open>A\<close> or \<open>b\<close> of an \<open>Identity\<close> raises nothing and leaves the
  object as it was: afterwards \<open>A\<close> and \<open>b\<close> read as before and the call still returns
  its input.
\<close>

theorem Identity_setters_ignored:
  "Identity_A_setter (Identity d) v = Identity d \<and>
   Identity_b_setter (Identity d) v = Identity d \<and>
   Identity_A (Identity_A_setter (Identity d) v) = Identity_A (Identity d) \<and>
   Identity_b (Identity_A_setter (Identity d) v) = Identity_b (Identity d) \<and>
   Identity_A (Identity_b_setter (Identity d) v) = Identity_A (Identity d) \<and>
   Identity_b (Identity_b_setter (Identity d) v) = Identity_b (Identity d) \<and>
   call (Identity_A_setter (Identity d) v) X = Inr X \<and>
   call (Identity_b_setter (Identity d) v) X = Inr X"
  by (simp add: Identity_A_setter_def Identity_b_setter_def)

section \<open>Constant and Zero\<close>

text \<open>
  Claim C9. For an input \<open>X\<close> with \<open>N\<close> rows, \<open>Constant\<close> built from a vector \<open>c\<close> of
  length \<open>Q\<close> returns the \<open>N \<times> Q\<close> matrix whose every row is \<open>c\<close>, the same for every
  input with \<open>N\<close> rows; \<open>Zero\<close> with \<open>output_dim = Q\<close> returns zeros of the shape of \<open>X\<close>
  with its last axis replaced by \<open>Q\<close> (for a matrix, \<open>N \<times> Q\<close>), the same for every
  input of that shape.
\<close>

theorem Constant_Zero_call:
  assumes "wf_tensor c0" and "shape c0 = [Q]" and "shape X = N # rest"
  shows "(\<exists>Y. call (Constant_init (Some c0)) X = Inr Y \<and> shape Y = [N, Q] \<and> wf_tensor Y \<and>
            (\<forall>i < N. row Y i = elems c0) \<and>
            (\<forall>X'. shape X' \<noteq> [] \<and> hd (shape X') = N \<longrightarrow> call (Constant_init (Some c0)) X' = Inr Y)) \<and>
         (\<exists>Z. call (Zero_init (Some (int Q))) X = Inr Z \<and> shape Z = butlast (shape X) @ [Q] \<and>
            wf_tensor Z \<and> (\<forall>z \<in> set (elems Z). z = 0) \<and>
            (rest = [D] \<longrightarrow> shape Z = [N, Q]) \<and>
            (\<forall>X'. shape X' = shape X \<longrightarrow> call (Zero_init (Some (int Q))) X' = Inr Z))"
proof -
  let ?Y = "Tensor [N, Q] (concat (replicate N (elems c0)))"
  have len: "length (elems c0) = Q"
    using assms(1,2) by (simp add: wf_tensor_def)
  have call_c: "call (Constant_init (Some c0)) X' = Inr ?Y"
    if "shape X' \<noteq> []" "hd (shape X') = N" for X'
    using that len tile_row[of "elems c0" Q N] assms(2)
    by (cases "shape X'")
      (simp_all add: Constant_init_def np_reshape_row_def tf_shape_at_def tf_tile_def)
  have rows: "\<forall>r \<in> set (replicate N (elems c0)). length r = Q"
    using len by simp
  have "row ?Y i = elems c0" if "i < N" for i
    using row_mat[OF rows, of i] that by simp
  moreover have "wf_tensor ?Y"
    using len by (simp add: wf_tensor_def length_concat comp_def sum_list_replicate)
  moreover have "call (Constant_init (Some c0)) X = Inr ?Y"
    using call_c[of X] assms(3) by simp
  ultimately have C: "\<exists>Y. call (Constant_init (Some c0)) X = Inr Y \<and> shape Y = [N, Q] \<and>
      wf_tensor Y \<and> (\<forall>i < N. row Y i = elems c0) \<and>
      (\<forall>X'. shape X' \<noteq> [] \<and> hd (shape X') = N \<longrightarrow> call (Constant_init (Some c0)) X' = Inr Y)"
    using call_c by auto
  let ?Z = "Tensor (butlast (shape X) @ [Q]) (replicate (prod_list (butlast (shape X)) * Q) 0)"
  have call_z: "call (Zero_init (Some (int Q))) X' = Inr ?Z" if "shape X' = shape X" for X'
    using that by (simp add: Zero_init_def tf_zeros_def comp_def)
  have "wf_tensor ?Z"
    by (simp add: wf_tensor_def)
  moreover have "\<forall>z \<in> set (elems ?Z). z = 0"
    by simp
  moreover have "rest = [D] \<longrightarrow> shape ?Z = [N, Q]"
    using assms(3) by simp
  ultimately have Z: "\<exists>Z. call (Zero_init (Some (int Q))) X = Inr Z \<and>
      shape Z = butlast (shape X) @ [Q] \<and> wf_tensor Z \<and> (\<forall>z \<in> set (elems Z). z = 0) \<and>
      (rest = [D] \<longrightarrow> shape Z = [N, Q]) \<and>
      (\<forall>X'. shape X' = shape X \<longrightarrow> call (Zero_init (Some (int Q))) X' = Inr Z)"
    using call_z by (metis tensor.sel(1))
  from C Z show ?thesis by blast
qed

theorem Constant_Zero_call_witness:
  "wf_tensor (Tensor [2] [5, 7 :: real]) \<and>
   call (Constant_init (Some (Tensor [2] [5, 7]))) (Tensor [3, 1] [9, 8, 6]) =
     Inr (Tensor [3, 2] [5, 7, 5, 7, 5, 7]) \<and>
   call (Zero_init (Some 2)) (Tensor [3, 1] [9, 8, 6]) = Inr (Tensor [3, 2] [0, 0, 0, 0, 0, 0])"
proof -
  have wf: "wf_tensor (Tensor [2] [5, 7 :: real])"
    by (simp add: wf_tensor_def)
  from Constant_Zero_call[OF wf, of 2 "Tensor [3, 1] [9, 8, 6]" 3 "[1]" 1]
  obtain Y Z where Y: "call (Constant_init (Some (Tensor [2] [5, 7]))) (Tensor [3, 1] [9, 8, 6]) = Inr Y"
    and Z: "call (Zero_init (Some (int 2))) (Tensor [3, 1] [9, 8, 6]) = Inr Z"
    by auto
  have "call (Constant_init (Some (Tensor [2] [5, 7]))) (Tensor [3, 1] [9, 8, 6]) =
     Inr (Tensor [3, 2] [5, 7, 5, 7, 5, 7])"
    by code_simp
  moreover have "call (Zero_init (Some 2)) (Tensor [3, 1] [9, 8, 6]) = Inr (Tensor [3, 2] [0, 0, 0, 0, 0, 0])"
    by code_simp
  ultimately show ?thesis using wf Y Z by simp
qed

section \<open>Linear\<close>

text \<open>
  With the inner product and the sum of real numbers, \<open>Linear_call_with\<close> is the
  evaluation of \<open>Linear\<close> by \<open>call\<close>.
\<close>

lemma call_Linear_with: "call (Linear A b) X = Linear_call_with exact_dot (+) A b X"
  by (simp add: Linear_call_with_def tf_matmul_def tf_add_def)

text \<open>
  Without rounding, the inner product of row \<open>i\<close> of \<open>X\<close> and column \<open>j\<close> of \<open>A\<close> is the
  sum of the products \<open>X[i, k] * A[k, j]\<close>.
\<close>

lemma exact_dot_row_column:
  assumes "wf_tensor X" and "shape X = [N, D]" and "shape A = [D, Q]" and "i < N"
  shows "exact_dot (row X i) (column A j) = (\<Sum>k < D. entry X i k * entry A k j)"
proof -
  have len: "length (elems X) = N * D"
    using assms(1,2) by (simp add: wf_tensor_def)
  have le: "i * D + D \<le> N * D"
    using assms(4) by (metis Suc_leI mult_Suc mult_le_mono1 add.commute)
  have lr: "length (row X i) = D"
    using assms(2) len le by (simp add: row_def)
  have le': "i * D \<le> length (elems X)"
    using len assms(4) by simp
  have nth: "row X i ! k = entry X i k" if "k < D" for k
    using that assms(2) nth_drop[OF le', of k] by (simp add: row_def entry_def)
  have "map2 (*) (row X i) (column A j) = map (\<lambda>k. entry X i k * entry A k j) [0..<D]"
  proof (rule nth_equalityI)
    show "length (map2 (*) (row X i) (column A j)) = length (map (\<lambda>k. entry X i k * entry A k j) [0..<D])"
      using lr assms(3) by (simp add: column_def)
  next
    fix k assume "k < length (map2 (*) (row X i) (column A j))"
    then have k: "k < D"
      using lr by simp
    then show "map2 (*) (row X i) (column A j) ! k = map (\<lambda>k. entry X i k * entry A k j) [0..<D] ! k"
      using lr assms(3) nth[OF k] by (simp add: column_def)
  qed
  then show ?thesis
    by (simp add: exact_dot_def sum_list_upt)
qed

text \<open>
  Claim C2. For \<open>X\<close> with \<open>N\<close> rows and \<open>Linear\<close> with \<open>A\<close> of shape \<open>D \<times> Q\<close> and \<open>b\<close> of
  length \<open>Q\<close>, in the arithmetic of the engine, whatever it is: when \<open>X\<close> has \<open>D\<close> columns
  the call returns an \<open>N \<times> Q\<close> matrix whose entry \<open>(i, j)\<close> is the engine's inner product
  of row \<open>i\<close> of \<open>X\<close> with column \<open>j\<close> of \<open>A\<close>, to which the engine adds \<open>b[j]\<close>, and row \<open>i\<close>
  of the result is what the call returns on row \<open>i\<close> of \<open>X\<close> alone, \<open>X[i] \<cdot> A + b\<close>; when the
  number of columns of \<open>X\<close> is not \<open>D\<close> the call fails with a shape mismatch.
\<close>

theorem Linear_call:
  fixes dot :: "'a list \<Rightarrow> 'a list \<Rightarrow> 'a" and add :: "'a \<Rightarrow> 'a \<Rightarrow> 'a"
  assumes "wf_tensor X" and "shape X = [N, D']"
    and "wf_tensor A" and "shape A = [D, Q]" and "wf_tensor b" and "shape b = [Q]"
  shows "(D' = D \<longrightarrow>
           (\<exists>Y. Linear_call_with dot add A b X = Inr Y \<and> shape Y = [N, Q] \<and> wf_tensor Y \<and>
              (\<forall>i < N. \<forall>j < Q. entry Y i j = add (dot (row X i) (column A j)) (elems b ! j)) \<and>
              (\<forall>i < N. Linear_call_with dot add A b (Tensor [1, D] (row X i)) =
                         Inr (Tensor [1, Q] (row Y i))))) \<and>
         (D' \<noteq> D \<longrightarrow> Linear_call_with dot add A b X = Inl ShapeMismatch)"
proof -
  let ?rs = "chop N D' (elems X)"
  have X: "X = mat D' ?rs" and rows: "\<forall>r \<in> set ?rs. length r = D'"
    using tensor_as_mat[OF assms(1,2)] by blast+
  have lenrs: "length ?rs = N"
    by (simp add: chop_def)
  have lenb: "length (elems b) = Q"
    using assms(5,6) by (simp add: wf_tensor_def)
  have b: "b = Tensor [Q] (elems b)"
    using assms(6) by (cases b) simp
  let ?g = "\<lambda>r. map2 add (vecmat dot Q r A) (elems b)"
  have gen: "Linear_call_with dot add A b (mat D'' rs') =
      (if D'' = D then Inr (mat Q (map ?g rs')) else Inl ShapeMismatch)"
    if r': "\<forall>r \<in> set rs'. length r = D''" for rs' D''
  proof -
    have yrows: "\<forall>r \<in> set (map (\<lambda>r. vecmat dot Q r A) rs'). length r = Q"
      by (simp add: vecmat_def)
    have "tf_elementwise add (mat Q (map (\<lambda>r. vecmat dot Q r A) rs')) b = Inr (mat Q (map ?g rs'))"
      using elementwise_vector[OF yrows lenb, of add] b by (simp add: comp_def)
    then show ?thesis
      using matmul_with_mat[OF assms(4) r', of dot] by (simp add: Linear_call_with_def)
  qed
  have res: "Linear_call_with dot add A b X =
      (if D' = D then Inr (mat Q (map ?g ?rs)) else Inl ShapeMismatch)"
    using gen[OF rows] X by simp
  show ?thesis
  proof (cases "D' = D")
    case False
    then show ?thesis using res by simp
  next
    case True
    let ?zs = "map ?g ?rs"
    have zrows: "\<forall>r \<in> set ?zs. length r = Q"
      using lenb by (simp add: vecmat_def)
    have rowX: "row X i = ?rs ! i" if "i < N" for i
      using that assms(2) by (simp add: row_def nth_chop)
    have ent: "entry (mat Q ?zs) i j = add (dot (row X i) (column A j)) (elems b ! j)"
      if "i < N" "j < Q" for i j
    proof -
      have "entry (mat Q ?zs) i j = ?zs ! i ! j"
        using nth_concat_uniform[OF zrows, of i j] that lenrs by (simp add: entry_def mat_def)
      also have "\<dots> = ?g (?rs ! i) ! j"
        using that(1) lenrs by simp
      also have "\<dots> = add (dot (row X i) (column A j)) (elems b ! j)"
        using that lenb rowX[OF that(1)] by (simp add: vecmat_def)
      finally show ?thesis .
    qed
    have one: "Linear_call_with dot add A b (Tensor [1, D] (row X i)) =
        Inr (Tensor [1, Q] (row (mat Q ?zs) i))" if "i < N" for i
    proof -
      have len1: "\<forall>r \<in> set [?rs ! i]. length r = D"
        using rows that lenrs True by simp
      have "row (mat Q ?zs) i = ?zs ! i"
        using row_mat[OF zrows, of i] that lenrs by (simp add: mat_def)
      then have "row (mat Q ?zs) i = ?g (row X i)"
        using that lenrs rowX[OF that] by simp
      moreover have "Tensor [1, D] (row X i) = mat D [?rs ! i]"
        using rowX[OF that] by (simp add: mat_def)
      ultimately show ?thesis
        using gen[OF len1] rowX[OF that] by (simp add: mat_def)
    qed
    have "wf_tensor (mat Q ?zs)"
      using wf_mat[OF zrows] .
    moreover have "shape (mat Q ?zs) = [N, Q]"
      using lenrs by (simp add: mat_def)
    ultimately have "Linear_call_with dot add A b X = Inr (mat Q ?zs) \<and> shape (mat Q ?zs) = [N, Q] \<and>
        wf_tensor (mat Q ?zs) \<and>
        (\<forall>i < N. \<forall>j < Q. entry (mat Q ?zs) i j = add (dot (row X i) (column A j)) (elems b ! j)) \<and>
        (\<forall>i < N. Linear_call_with dot add A b (Tensor [1, D] (row X i)) =
                   Inr (Tensor [1, Q] (row (mat Q ?zs) i)))"
      using res ent one True by simp
    then show ?thesis
      using True by (intro conjI impI exI[of _ "mat Q ?zs"]) simp_all
  qed
qed

theorem Linear_call_witness:
  "wf_tensor (Tensor [2, 2] [1, 2, 3, 4 :: real]) \<and> wf_tensor (Tensor [2] [10, 20 :: real]) \<and>
   wf_tensor (Tensor [2, 2] [5, 6, 7, 8 :: real]) \<and> wf_tensor (Tensor [1, 3] [5, 6, 7 :: real]) \<and>
   (\<exists>Y. Linear_call_with exact_dot (+) (Tensor [2, 2] [1, 2, 3, 4]) (Tensor [2] [10, 20])
          (Tensor [2, 2] [5, 6, 7, 8]) = Inr Y \<and> shape Y = [2, 2] \<and>
        entry Y 0 0 = 33 \<and> entry Y 0 1 = 54 \<and> entry Y 1 0 = 41 \<and> entry Y 1 1 = 66 \<and>
        Linear_call_with exact_dot (+) (Tensor [2, 2] [1, 2, 3, 4]) (Tensor [2] [10, 20])
          (Tensor [1, 2] [7, 8]) = Inr (Tensor [1, 2] (row Y 1))) \<and>
   Linear_call_with exact_dot (+) (Tensor [2, 2] [1, 2, 3, 4]) (Tensor [2] [10, 20])
     (Tensor [1, 3] [5, 6, 7]) = Inl ShapeMismatch \<and>
   call (Linear_init (Some (Tensor [2, 2] [1, 2, 3, 4])) (Some (Tensor [2] [10, 20])))
     (Tensor [2, 2] [5, 6, 7, 8]) = Inr (Tensor [2, 2] [33, 54, 41, 66])"
proof -
  have w: "wf_tensor (Tensor [2, 2] [1, 2, 3, 4 :: real])" "wf_tensor (Tensor [2] [10, 20 :: real])"
    "wf_tensor (Tensor [2, 2] [5, 6, 7, 8 :: real])" "wf_tensor (Tensor [1, 3] [5, 6, 7 :: real])"
    by (simp_all add: wf_tensor_def)
  let ?A = "Tensor [2, 2] [1, 2, 3, 4 :: real]" and ?b = "Tensor [2] [10, 20 :: real]"
    and ?X = "Tensor [2, 2] [5, 6, 7, 8 :: real]"
  from Linear_call[OF w(3) _ w(1) _ w(2), of 2 2 2 2 exact_dot "(+)"]
  have "\<exists>Y. Linear_call_with exact_dot (+) ?A ?b ?X = Inr Y \<and> shape Y = [2, 2] \<and> wf_tensor Y \<and>
      (\<forall>i < 2. \<forall>j < 2. entry Y i j = exact_dot (row ?X i) (column ?A j) + elems ?b ! j) \<and>
      (\<forall>i < 2. Linear_call_with exact_dot (+) ?A ?b (Tensor [1, 2] (row ?X i)) =
                 Inr (Tensor [1, 2] (row Y i)))"
    by simp
  then obtain Y where Y: "Linear_call_with exact_dot (+) ?A ?b ?X = Inr Y" "shape Y = [2, 2]"
    and e: "\<forall>i < 2. \<forall>j < 2. entry Y i j = exact_dot (row ?X i) (column ?A j) + elems ?b ! j"
    and r: "\<forall>i < 2. Linear_call_with exact_dot (+) ?A ?b (Tensor [1, 2] (row ?X i)) =
                 Inr (Tensor [1, 2] (row Y i))"
    by (elim exE conjE)
  have u: "[0..<2] = [0, 1 :: nat]"
    by code_simp
  have e00: "entry Y 0 0 = 33" using e[rule_format, of 0 0]
    by (simp add: row_def column_def exact_dot_def entry_def u)
  have e01: "entry Y 0 1 = 54" using e[rule_format, of 0 1]
    by (simp add: row_def column_def exact_dot_def entry_def u)
  have e10: "entry Y 1 0 = 41" using e[rule_format, of 1 0]
    by (simp add: row_def column_def exact_dot_def entry_def u)
  have e11: "entry Y 1 1 = 66" using e[rule_format, of 1 1]
    by (simp add: row_def column_def exact_dot_def entry_def u)
  have r1: "Linear_call_with exact_dot (+) ?A ?b (Tensor [1, 2] [7, 8]) = Inr (Tensor [1, 2] (row Y 1))"
    using r[rule_format, of 1] by (simp add: row_def)
  have 1: "\<exists>Y. Linear_call_with exact_dot (+) (Tensor [2, 2] [1, 2, 3, 4]) (Tensor [2] [10, 20])
          (Tensor [2, 2] [5, 6, 7, 8]) = Inr Y \<and> shape Y = [2, 2] \<and>
        entry Y 0 0 = 33 \<and> entry Y 0 1 = 54 \<and> entry Y 1 0 = 41 \<and> entry Y 1 1 = 66 \<and>
        Linear_call_with exact_dot (+) (Tensor [2, 2] [1, 2, 3, 4]) (Tensor [2] [10, 20])
          (Tensor [1, 2] [7, 8]) = Inr (Tensor [1, 2] (row Y 1))"
    using Y e00 e01 e10 e11 r1 by (intro exI[of _ Y]) simp
  from Linear_call[OF w(4) _ w(1) _ w(2), of 1 3 2 2 exact_dot "(+)"]
  have 2: "Linear_call_with exact_dot (+) (Tensor [2, 2] [1, 2, 3, 4]) (Tensor [2] [10, 20])
     (Tensor [1, 3] [5, 6, 7]) = Inl ShapeMismatch"
    by simp
  have 3: "call (Linear_init (Some (Tensor [2, 2] [1, 2, 3, 4])) (Some (Tensor [2] [10, 20])))
     (Tensor [2, 2] [5, 6, 7, 8]) = Inr (Tensor [2, 2] [33, 54, 41, 66])"
    by code_simp
  from w 1 2 3 show ?thesis by blast
qed

section \<open>Additive and Product\<close>

text \<open>
  On tensors of the floating type and with the sum and the product of real numbers,
  \<open>Additive_call_with\<close> and \<open>Product_call_with\<close> are the evaluation of \<open>Additive\<close> and of
  \<open>Product\<close> by \<open>call\<close>.
\<close>

lemma call_Additive_with:
  "and_then (call (Additive f g) X) (\<lambda>Y. Inr (float_type, Y)) =
   Additive_call_with (+)
     (\<lambda>X. and_then (call f X) (\<lambda>Y. Inr (float_type, Y)))
     (\<lambda>X. and_then (call g X) (\<lambda>Y. Inr (float_type, Y))) X"
  by (cases "call f X"; cases "call g X")
    (simp_all add: Additive_call_with_def tf_elementwise_typed_def tf_add_def and_then_def)

lemma call_Product_with:
  "and_then (call (Product f g) X) (\<lambda>Y. Inr (float_type, Y)) =
   Product_call_with (*)
     (\<lambda>X. and_then (call f X) (\<lambda>Y. Inr (float_type, Y)))
     (\<lambda>X. and_then (call g X) (\<lambda>Y. Inr (float_type, Y))) X"
  by (cases "call f X"; cases "call g X")
    (simp_all add: Product_call_with_def tf_elementwise_typed_def tf_multiply_def and_then_def)








section \<open>Rows in, rows out\<close>

text \<open>
  Claim C4. For every concrete mean function of the module and every input matrix
  \<open>X\<close> with \<open>N\<close> rows on which the call returns, the result is a matrix with exactly
  \<open>N\<close> rows, and a row of the output depends only on the same row of the input: if
  another input matrix of the same width has, at any position \<open>j\<close>, the row that \<open>X\<close>
  has at position \<open>i\<close>, then its output has at \<open>j\<close> the row that the output for \<open>X\<close>
  has at \<open>i\<close> (for a switch the label is part of that input row).
\<close>

theorem rows_preserved_and_independent:
  assumes "concrete m" and "wf_tensor X" and "shape X = [N, D]" and "call m X = Inr Y"
  shows "(\<exists>Q. shape Y = [N, Q] \<and> wf_tensor Y) \<and>
         (\<forall>X' Y' N' i j. wf_tensor X' \<and> shape X' = [N', D] \<and> call m X' = Inr Y' \<and>
              i < N \<and> j < N' \<and> row X i = row X' j \<longrightarrow> row Y i = row Y' j)"
proof -
  have rw: "rowwise m"
    using assms(1) by (rule concrete_rowwise)
  have fact: "\<exists>Q f. Z = mat Q (map f (rows W)) \<and> (\<forall>r \<in> set (rows W). length (f r) = Q) \<and>
      (\<forall>r \<in> set (rows W). call m (mat D [r]) = Inr (mat Q [f r]))"
    if W: "wf_tensor W" "shape W = [n, D]" and Z: "call m W = Inr Z" for W Z n
  proof -
    note rm = rows_mat[OF W]
    have cz: "call m (mat D (rows W)) = Inr Z"
      using Z rm(1) by simp
    from rowwiseD[OF rw rm(2) cz] obtain Q f where
      l: "\<forall>r \<in> set (rows W). length (f r) = Q"
      and c: "\<forall>rs'. set rs' \<subseteq> set (rows W) \<longrightarrow> call m (mat D rs') = Inr (mat Q (map f rs'))"
      by (elim exE conjE)
    have "Z = mat Q (map f (rows W))"
      using c cz by simp
    moreover have "\<forall>r \<in> set (rows W). call m (mat D [r]) = Inr (mat Q [f r])"
      using c by simp
    ultimately have "Z = mat Q (map f (rows W)) \<and> (\<forall>r \<in> set (rows W). length (f r) = Q) \<and>
      (\<forall>r \<in> set (rows W). call m (mat D [r]) = Inr (mat Q [f r]))"
      using l by simp
    then show ?thesis
      by (intro exI[of _ Q] exI[of _ f])
  qed
  from fact[OF assms(2,3,4)] obtain Q f where
    Y: "Y = mat Q (map f (rows X))" and l: "\<forall>r \<in> set (rows X). length (f r) = Q"
    and c: "\<forall>r \<in> set (rows X). call m (mat D [r]) = Inr (mat Q [f r])"
    by (elim exE conjE)
  note rx = rows_mat[OF assms(2,3)]
  have shY: "shape Y = [N, Q]"
    using Y rx(3) by simp
  have wfY: "wf_tensor Y"
    unfolding Y using l by (intro wf_mat) simp
  have indep: "row Y i = row Y' j"
    if X': "wf_tensor X'" "shape X' = [N', D]" and Y': "call m X' = Inr Y'"
      and ij: "i < N" "j < N'" and eq: "row X i = row X' j" for X' Y' N' i j
  proof -
    from fact[OF X' Y'] obtain Q' f' where
      Y'e: "Y' = mat Q' (map f' (rows X'))" and l': "\<forall>r \<in> set (rows X'). length (f' r) = Q'"
      and c': "\<forall>r \<in> set (rows X'). call m (mat D [r]) = Inr (mat Q' [f' r])"
      by (elim exE conjE)
    note rx' = rows_mat[OF X']
    have r: "rows X ! i = rows X' ! j"
      using eq row_rows[OF assms(2,3) ij(1)] row_rows[OF X' ij(2)] by simp
    have mi: "rows X ! i \<in> set (rows X)" and mj: "rows X' ! j \<in> set (rows X')"
      using ij rx(3) rx'(3) by simp_all
    have "call m (mat D [rows X ! i]) = Inr (mat Q [f (rows X ! i)])"
      using c mi by simp
    moreover have "call m (mat D [rows X ! i]) = Inr (mat Q' [f' (rows X' ! j)])"
      using c' mj r by simp
    ultimately have "mat Q [f (rows X ! i)] = mat Q' [f' (rows X' ! j)]"
      by simp
    then have ff: "f (rows X ! i) = f' (rows X' ! j)"
      by (simp add: mat_def)
    have shY': "shape Y' = [N', Q']"
      using Y'e rx'(3) by simp
    have wfY': "wf_tensor Y'"
      unfolding Y'e using l' by (intro wf_mat) simp
    have "row Y' j = map f' (rows X') ! j"
      using row_mat[of "map f' (rows X')" Q' j] l' ij(2) rx'(3) by (simp add: Y'e mat_def)
    moreover have "row Y i = map f (rows X) ! i"
      using row_mat[of "map f (rows X)" Q i] l ij(1) rx(3) by (simp add: Y mat_def)
    ultimately show ?thesis
      using ff ij rx(3) rx'(3) by simp
  qed
  have 1: "\<exists>Q. shape Y = [N, Q] \<and> wf_tensor Y"
    using shY wfY by simp
  have 2: "\<forall>X' Y' N' i j. wf_tensor X' \<and> shape X' = [N', D] \<and> call m X' = Inr Y' \<and>
              i < N \<and> j < N' \<and> row X i = row X' j \<longrightarrow> row Y i = row Y' j"
    using indep by (intro allI impI) (elim conjE)
  from 1 2 show ?thesis by (rule conjI)
qed

theorem rows_preserved_and_independent_witness:
  "concrete (SwitchedMeanFunction [Constant_init (Some (Tensor [1] [1])), Constant_init (Some (Tensor [1] [2]))]) \<and>
   call (SwitchedMeanFunction [Constant_init (Some (Tensor [1] [1])), Constant_init (Some (Tensor [1] [2]))])
     (Tensor [3, 2] [0.1, 0, 0.2, 1, 0.3, 0]) = Inr (Tensor [3, 1] [1, 2, 1]) \<and>
   call (SwitchedMeanFunction [Constant_init (Some (Tensor [1] [1])), Constant_init (Some (Tensor [1] [2]))])
     (Tensor [2, 2] [0.2, 1, 0.1, 0]) = Inr (Tensor [2, 1] [2, 1]) \<and>
   row (Tensor [3, 2] [0.1, 0, 0.2, 1, 0.3, 0 :: real]) 0 = row (Tensor [2, 2] [0.2, 1, 0.1, 0]) 1 \<and>
   row (Tensor [3, 1] [1, 2, 1 :: real]) 0 = row (Tensor [2, 1] [2, 1]) 1"
proof -
  let ?m = "SwitchedMeanFunction [Constant_init (Some (Tensor [1] [1])), Constant_init (Some (Tensor [1] [2]))]"
  let ?X = "Tensor [3, 2] [0.1, 0, 0.2, 1, 0.3, 0 :: real]"
  let ?X' = "Tensor [2, 2] [0.2, 1, 0.1, 0 :: real]"
  have cc: "concrete ?m"
    by (simp add: Constant_init_def np_reshape_row_def wf_tensor_def)
  have wf: "wf_tensor ?X" and wf': "wf_tensor ?X'"
    by (simp_all add: wf_tensor_def)
  have sh: "shape ?X = [3, 2]" and sh': "shape ?X' = [2, 2]"
    by simp_all
  have c: "call ?m ?X = Inr (Tensor [3, 1] [1, 2, 1])"
    by code_simp
  have c': "call ?m ?X' = Inr (Tensor [2, 1] [2, 1])"
    by code_simp
  have r: "row ?X 0 = row ?X' 1"
    by code_simp
  from rows_preserved_and_independent[OF cc wf sh c]
  have "\<forall>X' Y' N' i j. wf_tensor X' \<and> shape X' = [N', 2] \<and> call ?m X' = Inr Y' \<and>
              i < 3 \<and> j < N' \<and> row ?X i = row X' j \<longrightarrow> row (Tensor [3, 1] [1, 2, 1]) i = row Y' j"
    by (rule conjunct2)
  then have "wf_tensor ?X' \<and> shape ?X' = [2, 2] \<and> call ?m ?X' = Inr (Tensor [2, 1] [2, 1]) \<and>
              (0::nat) < 3 \<and> (1::nat) < 2 \<and> row ?X 0 = row ?X' 1 \<longrightarrow>
             row (Tensor [3, 1] [1, 2, 1 :: real]) 0 = row (Tensor [2, 1] [2, 1]) 1"
    by (elim allE)
  then have "row (Tensor [3, 1] [1, 2, 1 :: real]) 0 = row (Tensor [2, 1] [2, 1]) 1"
    using wf' sh' c' r by simp
  with cc c c' r show ?thesis by (intro conjI)
qed

section \<open>SwitchedMeanFunction\<close>

text \<open>
  Claim C1. Let \<open>X\<close> have \<open>N\<close> rows and \<open>D + 1\<close> columns, the last entry of each row a
  label in \<open>[0, K)\<close> (an int32 value) for the \<open>K \<ge> 1\<close> concrete children \<open>cs\<close>, and let
  child \<open>g\<close> return the matrix \<open>R g\<close>, of width \<open>Q\<close>, on its group: the rows of \<open>X\<close> with
  label \<open>g\<close>, in their order, without the label column. Then the switch returns a
  matrix with \<open>N\<close> rows and \<open>Q\<close> columns; its row \<open>i\<close> is what the child selected by the
  label of row \<open>i\<close> returns on the first \<open>D\<close> columns of row \<open>i\<close>, and it is the row of
  \<open>R\<close> of that child at the position that row \<open>i\<close> has in its group. The instance that
  follows is the example of the claim: the children \<open>Constant([1])\<close> and
  \<open>Constant([2])\<close> on \<open>[[0.1, 0], [0.2, 1], [0.3, 0]]\<close> give \<open>[[1], [2], [1]]\<close>.
\<close>

theorem Switched_call:
  assumes "wf_tensor X" and "shape X = [N, Suc D]"
    and "cs \<noteq> []" and "list_all concrete cs"
    and "labels_ok (length cs) (rows X)"
    and "\<forall>g < length cs. call (cs ! g) (label_group X g) = Inr (R g) \<and> (\<exists>n. shape (R g) = [n, Q])"
  shows "\<exists>Y. call (SwitchedMeanFunction cs) X = Inr Y \<and> shape Y = [N, Q] \<and> wf_tensor Y \<and>
           (\<forall>i < N. label (row X i) = truncate (entry X i D) \<and>
              call (cs ! nat (label (row X i))) (Tensor [1, D] (butlast (row X i))) =
                Inr (Tensor [1, Q] (row Y i)) \<and>
              row Y i = row (R (nat (label (row X i))))
                          (length (filter (\<lambda>r. label r = label (row X i)) (take i (rows X)))))"
proof -
  let ?K = "length cs" and ?rs = "rows X"
  note rm = rows_mat[OF assms(1,2)]
  have K: "0 < ?K" using assms(3) by simp
  have rrows: "\<forall>r \<in> set ?rs. length r = Suc D" by (rule rm(2))
  have ex: "\<exists>f. g < ?K \<longrightarrow> (\<forall>r \<in> set (group_rows ?rs g). length (f r) = Q) \<and>
      R g = mat Q (map f (group_rows ?rs g)) \<and>
      (\<forall>rs'. set rs' \<subseteq> set (group_rows ?rs g) \<longrightarrow>
         call (cs ! g) (mat D rs') = Inr (mat Q (map f rs')))" for g
  proof (cases "g < ?K")
    case False
    then show ?thesis by simp
  next
    case True
    then have "concrete (cs ! g)"
      using assms(4) by (simp add: list_all_length)
    then have rw: "rowwise (cs ! g)" by (rule concrete_rowwise)
    from assms(6) True obtain n where
      R: "call (cs ! g) (mat D (group_rows ?rs g)) = Inr (R g)" and shR: "shape (R g) = [n, Q]"
      unfolding group_mat[OF assms(2)] by (elim allE[of _ g] impE exE conjE) simp_all
    from rowwiseD[OF rw group_rows_length[OF rrows] R] obtain Q' f where
      l: "\<forall>r \<in> set (group_rows ?rs g). length (f r) = Q'"
      and c: "\<forall>rs'. set rs' \<subseteq> set (group_rows ?rs g) \<longrightarrow>
         call (cs ! g) (mat D rs') = Inr (mat Q' (map f rs'))"
      by (elim exE conjE)
    have Rg: "R g = mat Q' (map f (group_rows ?rs g))"
      using c R by simp
    then have "Q' = Q" using shR by simp
    then have "(\<forall>r \<in> set (group_rows ?rs g). length (f r) = Q) \<and>
      R g = mat Q (map f (group_rows ?rs g)) \<and>
      (\<forall>rs'. set rs' \<subseteq> set (group_rows ?rs g) \<longrightarrow>
         call (cs ! g) (mat D rs') = Inr (mat Q (map f rs')))"
      using l c Rg by simp
    then show ?thesis
      by (intro exI[of _ f]) simp
  qed
  have "\<forall>g. \<exists>f. g < ?K \<longrightarrow> (\<forall>r \<in> set (group_rows ?rs g). length (f r) = Q) \<and>
      R g = mat Q (map f (group_rows ?rs g)) \<and>
      (\<forall>rs'. set rs' \<subseteq> set (group_rows ?rs g) \<longrightarrow>
         call (cs ! g) (mat D rs') = Inr (mat Q (map f rs')))"
    by (rule allI) (rule ex)
  from choice[OF this] obtain ff where ff:
    "\<forall>g. g < ?K \<longrightarrow> (\<forall>r \<in> set (group_rows ?rs g). length (ff g r) = Q) \<and>
      R g = mat Q (map (ff g) (group_rows ?rs g)) \<and>
      (\<forall>rs'. set rs' \<subseteq> set (group_rows ?rs g) \<longrightarrow>
         call (cs ! g) (mat D rs') = Inr (mat Q (map (ff g) rs')))"
    by (elim exE)
  have R_g: "R g = mat Q (map (ff g) (group_rows ?rs g))" if "g < ?K" for g
    using ff that by simp
  have len_g: "length (ff g r) = Q" if "g < ?K" "r \<in> set (group_rows ?rs g)" for g r
    using ff that by simp
  have call_g: "call (cs ! g) (mat D rs') = Inr (mat Q (map (ff g) rs'))"
    if "g < ?K" "set rs' \<subseteq> set (group_rows ?rs g)" for g rs'
    using ff that by simp
  let ?F = "\<lambda>r. ff (nat (truncate (last r))) (butlast r)"
  let ?Y = "mat Q (map ?F ?rs)"
  have res: "call (SwitchedMeanFunction cs) (mat (Suc D) ?rs) = Inr ?Y"
  proof (rule switched_result[OF rrows K assms(5)])
    show "\<forall>g < ?K. call (cs ! g) (mat D (group_rows ?rs g)) = Inr (mat Q (map (ff g) (group_rows ?rs g)))"
      using call_g by simp
    show "\<forall>g < ?K. \<forall>r \<in> set (group_rows ?rs g). length (ff g r) = Q"
      using len_g by simp
  qed
  have inK: "nat (label r) < ?K" "truncate (last r) = int (nat (label r))" if "r \<in> set ?rs" for r
    using assms(5) that by (auto simp: labels_ok_def label_def)
  have lenF: "\<forall>r \<in> set (map ?F ?rs). length r = Q"
  proof
    fix y assume "y \<in> set (map ?F ?rs)"
    then obtain r where r: "r \<in> set ?rs" and y: "y = ?F r" by auto
    have "butlast r \<in> set (group_rows ?rs (nat (label r)))"
      using r inK(2)[OF r] by (intro group_rows_member)
    from len_g[OF inK(1)[OF r] this] show "length y = Q"
      using y by (simp add: label_def)
  qed
  have 1: "call (SwitchedMeanFunction cs) X = Inr ?Y"
    using res rm(1) by simp
  have 2: "shape ?Y = [N, Q]"
    using rm(3) by simp
  have 3: "wf_tensor ?Y"
    by (rule wf_mat[OF lenF])
  have 4: "label (row X i) = truncate (entry X i D) \<and>
      call (cs ! nat (label (row X i))) (Tensor [1, D] (butlast (row X i))) = Inr (Tensor [1, Q] (row ?Y i)) \<and>
      row ?Y i = row (R (nat (label (row X i))))
                   (length (filter (\<lambda>r. label r = label (row X i)) (take i (rows X))))"
    if i: "i < N" for i
  proof -
    let ?r = "?rs ! i"
    have rx: "row X i = ?r"
      by (rule row_rows[OF assms(1,2) i])
    have mem: "?r \<in> set ?rs"
      using i rm(3) by simp
    have ry: "row ?Y i = ?F ?r"
      using row_mat[OF lenF, of i] i rm(3) by (simp add: mat_def)
    have bl: "butlast ?r \<in> set (group_rows ?rs (nat (label ?r)))"
      using mem inK(2)[OF mem] by (intro group_rows_member)
    have "call (cs ! nat (label ?r)) (mat D [butlast ?r]) = Inr (mat Q (map (ff (nat (label ?r))) [butlast ?r]))"
      using bl by (intro call_g[OF inK(1)[OF mem]]) simp
    then have "call (cs ! nat (label ?r)) (Tensor [1, D] (butlast ?r)) = Inr (Tensor [1, Q] (?F ?r))"
      by (simp add: mat_def label_def)
    moreover have "label (row X i) = truncate (entry X i D)"
      using entry_last[OF assms(1,2) i] by (simp add: label_def)
    moreover have "?F ?r = row (R (nat (label ?r))) (length (filter (\<lambda>r. label r = label ?r) (take i ?rs)))"
    proof -
      let ?g = "nat (label ?r)"
      let ?p = "length (filter (\<lambda>r. label r = label ?r) (take i ?rs))"
      have nonneg: "0 \<le> label ?r"
        using assms(5) mem by (simp add: labels_ok_def)
      have il: "i < length ?rs" using i rm(3) by simp
      from filter_nth_position[OF il, of "\<lambda>r. label r = label ?r"]
      have p: "?p < length (filter (\<lambda>r. label r = label ?r) ?rs)"
        and nth: "filter (\<lambda>r. label r = label ?r) ?rs ! ?p = ?r"
        by simp_all
      have gr: "group_rows ?rs ?g = map butlast (filter (\<lambda>r. label r = label ?r) ?rs)"
        using nonneg by (simp add: group_rows_def)
      have lenG: "\<forall>y \<in> set (map (ff ?g) (group_rows ?rs ?g)). length y = Q"
        using len_g[OF inK(1)[OF mem]] by simp
      have "row (R ?g) ?p = map (ff ?g) (group_rows ?rs ?g) ! ?p"
        unfolding R_g[OF inK(1)[OF mem]] using row_mat[OF lenG, of ?p] p
        by (simp add: mat_def gr)
      also have "\<dots> = ff ?g (butlast ?r)"
        using p nth by (simp add: gr)
      finally show ?thesis
        by (simp add: label_def)
    qed
    ultimately show ?thesis
      using rx ry by simp
  qed
  have 5: "\<forall>i < N. label (row X i) = truncate (entry X i D) \<and>
      call (cs ! nat (label (row X i))) (Tensor [1, D] (butlast (row X i))) = Inr (Tensor [1, Q] (row ?Y i)) \<and>
      row ?Y i = row (R (nat (label (row X i))))
                   (length (filter (\<lambda>r. label r = label (row X i)) (take i (rows X))))"
    by (intro allI impI) (rule 4)
  show ?thesis
    by (rule exI[of _ ?Y]) (intro conjI 1 2 3 5)
qed

theorem Switched_call_witness:
  "call (SwitchedMeanFunction [Constant_init (Some (Tensor [1] [1])), Constant_init (Some (Tensor [1] [2]))])
     (Tensor [3, 2] [0.1, 0, 0.2, 1, 0.3, 0]) = Inr (Tensor [3, 1] [1, 2, 1])"
proof -
  let ?X = "Tensor [3, 2] [0.1, 0, 0.2, 1, 0.3, 0 :: real]"
  let ?cs = "[Constant_init (Some (Tensor [1] [1])), Constant_init (Some (Tensor [1] [2]))]"
  have wf: "wf_tensor ?X" by (simp add: wf_tensor_def)
  have sh: "shape ?X = [3, Suc 1]" by simp
  have ne: "?cs \<noteq> []" by simp
  have cc: "list_all concrete ?cs"
    by (simp add: Constant_init_def np_reshape_row_def wf_tensor_def)
  have rs: "rows ?X = [[0.1, 0], [0.2, 1], [0.3, 0]]"
    by code_simp
  have lab: "labels_ok (length ?cs) (rows ?X)"
    unfolding rs by (simp add: labels_ok_def label_def truncate_def)
  have g0: "call (?cs ! 0) (label_group ?X 0) = Inr (Tensor [2, 1] [1, 1])"
    by code_simp
  have g1: "call (?cs ! 1) (label_group ?X 1) = Inr (Tensor [1, 1] [2])"
    by code_simp
  let ?R = "\<lambda>g. [Tensor [2, 1] [1, 1], Tensor [1, 1] [2 :: real]] ! g"
  have grp: "\<forall>g < length ?cs. call (?cs ! g) (label_group ?X g) = Inr (?R g) \<and> (\<exists>n. shape (?R g) = [n, 1])"
  proof (intro allI impI)
    fix g assume "g < length ?cs"
    then have "g = 0 \<or> g = 1" by auto
    then show "call (?cs ! g) (label_group ?X g) = Inr (?R g) \<and> (\<exists>n. shape (?R g) = [n, 1])"
      using g0 g1 by auto
  qed
  from Switched_call[OF wf sh ne cc lab grp] obtain Y where
    Y: "call (SwitchedMeanFunction ?cs) ?X = Inr Y" and shY: "shape Y = [3, 1]" and wfY: "wf_tensor Y"
    and rowsY: "\<forall>i < 3. label (row ?X i) = truncate (entry ?X i 1) \<and>
              call (?cs ! nat (label (row ?X i))) (Tensor [1, 1] (butlast (row ?X i))) =
                Inr (Tensor [1, 1] (row Y i)) \<and>
              row Y i = row (?R (nat (label (row ?X i))))
                          (length (filter (\<lambda>r. label r = label (row ?X i)) (take i (rows ?X))))"
    by (elim exE conjE)
  have r0: "call (?cs ! nat (label (row ?X 0))) (Tensor [1, 1] (butlast (row ?X 0))) = Inr (Tensor [1, 1] [1])"
    by code_simp
  have r1: "call (?cs ! nat (label (row ?X 1))) (Tensor [1, 1] (butlast (row ?X 1))) = Inr (Tensor [1, 1] [2])"
    by code_simp
  have r2: "call (?cs ! nat (label (row ?X 2))) (Tensor [1, 1] (butlast (row ?X 2))) = Inr (Tensor [1, 1] [1])"
    by code_simp
  have y: "call (?cs ! nat (label (row ?X i))) (Tensor [1, 1] (butlast (row ?X i))) =
      Inr (Tensor [1, 1] (row Y i))" if "i < 3" for i
    using rowsY that by blast
  have lt: "(0::nat) < 3" "(1::nat) < 3" "(2::nat) < 3"
    by simp_all
  have "Inr (Tensor [1, 1] (row Y 0)) = (Inr (Tensor [1, 1] [1]) :: error + real tensor)"
    by (rule trans[OF y[OF lt(1), symmetric] r0])
  moreover have "Inr (Tensor [1, 1] (row Y 1)) = (Inr (Tensor [1, 1] [2]) :: error + real tensor)"
    by (rule trans[OF y[OF lt(2), symmetric] r1])
  moreover have "Inr (Tensor [1, 1] (row Y 2)) = (Inr (Tensor [1, 1] [1]) :: error + real tensor)"
    by (rule trans[OF y[OF lt(3), symmetric] r2])
  ultimately have "row Y 0 = [1]" "row Y 1 = [2]" "row Y 2 = [1]"
    by simp_all
  moreover have "[0..<3] = [0, 1, 2]"
    by (simp add: upt_rec)
  ultimately have "Y = Tensor [3, 1] [1, 2, 1]"
    using tensor_from_rows[OF wfY shY] by simp
  then show ?thesis
    using Y by simp
qed

text \<open>
  Claim C10. On an input with \<open>N\<close> rows whose labels lie in \<open>[0, K)\<close>, the calls that one
  evaluation of a switch with \<open>K \<ge> 1\<close> children makes are exactly the \<open>K\<close> calls of
  child \<open>g\<close> on group \<open>g\<close>, for \<open>g = 0, \<dots>, K - 1\<close> in this order; group \<open>g\<close> has one
  row for each input row labelled \<open>g\<close> and is the matrix with no row (and \<open>D\<close> columns)
  when no row has that label; when the evaluation returns, every one of these calls has
  returned and the result has \<open>N\<close> rows.
\<close>

theorem Switched_calls_every_child_once:
  assumes "wf_tensor X" and "shape X = [N, Suc D]" and "cs \<noteq> []"
    and "labels_ok (length cs) (rows X)"
  shows "switch_calls cs X = Inr (map (\<lambda>g. (label_group X g, cs ! g)) [0..<length cs]) \<and>
         call (SwitchedMeanFunction cs) X =
           and_then (switch_calls cs X) (\<lambda>calls.
           and_then (sequence (map (\<lambda>(x, m). call m x) calls)) (\<lambda>results.
           and_then (switch_split X) (\<lambda>(ind, X').
           and_then (tf_range 0 (int (tf_size ind))) (\<lambda>r.
           and_then (tf_dynamic_partition r ind (length cs)) (\<lambda>partitions.
           tf_dynamic_stitch partitions results))))) \<and>
         (\<forall>g < length cs. wf_tensor (label_group X g) \<and>
            shape (label_group X g) = [length (filter (\<lambda>r. label r = int g) (rows X)), D]) \<and>
         (\<forall>g < length cs. (\<forall>r \<in> set (rows X). label r \<noteq> int g) \<longrightarrow> label_group X g = Tensor [0, D] []) \<and>
         (\<forall>Y. call (SwitchedMeanFunction cs) X = Inr Y \<longrightarrow>
            shape Y \<noteq> [] \<and> hd (shape Y) = N \<and>
            (\<forall>g < length cs. \<exists>R. call (cs ! g) (label_group X g) = Inr R))"
proof -
  let ?K = "length cs" and ?rs = "rows X"
  let ?ls = "map (\<lambda>r. truncate (last r)) ?rs" and ?fs = "map butlast ?rs"
  note rm = rows_mat[OF assms(1,2)]
  have K: "0 < ?K" using assms(3) by simp
  have grp: "label_group X g = mat D (group_rows ?rs g)" for g
    by (rule group_mat[OF assms(2)])
  have pk: "pick ?ls ?fs g = group_rows ?rs g" for g
    by (simp add: pick_map_filter group_rows_def label_def)
  have nocast: "\<not> (\<exists>r \<in> set ?rs. truncate (last r) < - (2 ^ 31) \<or> 2 ^ 31 \<le> truncate (last r))"
    using assms(4) unfolding labels_ok_def label_def by fastforce
  have inrange: "\<not> (\<exists>p \<in> set ?ls. p < 0 \<or> int ?K \<le> p)"
    using assms(4) unfolding labels_ok_def label_def by fastforce
  have sp: "switch_split (mat (Suc D) ?rs) = Inr (Tensor [length ?rs] ?ls, mat D ?fs)"
    using switch_split_mat[OF rm(2)] nocast by simp
  have frows: "\<forall>r \<in> set ?fs. length r = D"
    using rm(2) by auto
  have pt: "tf_dynamic_partition (mat D ?fs) (Tensor [length ?rs] ?ls) ?K =
      Inr (map (\<lambda>g. mat D (pick ?ls ?fs g)) [0..<?K])"
    using partition_mat[OF frows, of ?ls ?K] K inrange by simp
  have "switch_calls cs (mat (Suc D) ?rs) =
      Inr (zip (map (\<lambda>g. mat D (pick ?ls ?fs g)) [0..<?K]) cs)"
    unfolding switch_calls_def sp by (simp only: and_then_Inr prod.case pt)
  also have "zip (map (\<lambda>g. mat D (pick ?ls ?fs g)) [0..<?K]) cs =
      map (\<lambda>g. (label_group X g, cs ! g)) [0..<?K]"
    unfolding zip_map_upt_nth pk grp ..
  finally have 1: "switch_calls cs X = Inr (map (\<lambda>g. (label_group X g, cs ! g)) [0..<?K])"
    using rm(1) by simp
  have 3: "\<forall>g < ?K. wf_tensor (label_group X g) \<and>
            shape (label_group X g) = [length (filter (\<lambda>r. label r = int g) ?rs), D]"
    using wf_mat[OF group_rows_length[OF rm(2)]] by (simp add: grp) (simp add: group_rows_def)
  have 4: "\<forall>g < ?K. (\<forall>r \<in> set ?rs. label r \<noteq> int g) \<longrightarrow> label_group X g = Tensor [0, D] []"
    by (simp add: grp group_rows_def mat_def filter_empty_conv)
  have 5: "shape Y \<noteq> [] \<and> hd (shape Y) = N \<and> (\<forall>g < ?K. \<exists>R. call (cs ! g) (label_group X g) = Inr R)"
    if call: "call (SwitchedMeanFunction cs) X = Inr Y" for Y
  proof -
    let ?I = "\<lambda>g. pick ?ls (map int [0..<length ?rs]) g"
    have c: "call (SwitchedMeanFunction cs) (mat (Suc D) ?rs) = Inr Y"
      using call rm(1) by simp
    from c obtain results where
      seq: "sequence (map (\<lambda>g. call (cs ! g) (mat D (group_rows ?rs g))) [0..<?K]) = Inr results"
      and st: "tf_dynamic_stitch (map (\<lambda>g. Tensor [length (?I g)] (?I g)) [0..<?K]) results = Inr Y"
      unfolding call_switched_ok[OF rm(2) K assms(4)] by (auto simp: and_then_eq_Inr)
    from sequence_map_InrD[OF seq] have lres: "length results = ?K"
      and res: "\<forall>g < ?K. call (cs ! g) (mat D (group_rows ?rs g)) = Inr (results ! g)"
      by simp_all
    have I: "?I g = map int (positions ?ls g)" for g
      using pick_indices[of ?ls g] by simp
    have "map fst (stitch_pairs (map (\<lambda>g. Tensor [length (?I g)] (?I g)) [0..<?K]) results) =
        concat (map ?I [0..<?K])"
      by (rule map_fst_stitch_pairs[OF lres])
    also have "\<dots> = map int (concat (map (positions ?ls) [0..<?K]))"
      by (simp add: I map_concat comp_def)
    finally have "nat (fold max (map fst (stitch_pairs (map (\<lambda>g. Tensor [length (?I g)] (?I g)) [0..<?K]) results)) (- 1) + 1)
        = length ?ls"
      using count_positions[of ?ls ?K] inrange by (simp del: length_map) fastforce
    then have "shape Y \<noteq> [] \<and> hd (shape Y) = N"
      using dynamic_stitch_shape[OF st] rm(3) by simp
    moreover have "\<forall>g < ?K. \<exists>R. call (cs ! g) (label_group X g) = Inr R"
      using res by (simp add: grp)
    ultimately show ?thesis by simp
  qed
  have allY: "\<forall>Y. call (SwitchedMeanFunction cs) X = Inr Y \<longrightarrow>
            shape Y \<noteq> [] \<and> hd (shape Y) = N \<and>
            (\<forall>g < ?K. \<exists>R. call (cs ! g) (label_group X g) = Inr R)"
    by (intro allI impI) (rule 5)
  show ?thesis
    by (intro conjI 1 call_via_switch_calls 3 4 allY)
qed

theorem Switched_calls_every_child_once_witness:
  "switch_calls [Constant_init (Some (Tensor [1] [1])), Linear_init None None]
      (Tensor [2, 2] [0.5, 0, 0.7, 0]) =
     Inr [(Tensor [2, 1] [0.5, 0.7], Constant_init (Some (Tensor [1] [1]))),
          (Tensor [0, 1] [], Linear_init None None)] \<and>
   call (Linear_init None None) (Tensor [0, 1] []) = Inr (Tensor [0, 1] []) \<and>
   call (SwitchedMeanFunction [Constant_init (Some (Tensor [1] [1])), Linear_init None None])
      (Tensor [2, 2] [0.5, 0, 0.7, 0]) = Inr (Tensor [2, 1] [1, 1])"
proof -
  let ?X = "Tensor [2, 2] [0.5, 0, 0.7, 0 :: real]"
  let ?cs = "[Constant_init (Some (Tensor [1] [1])), Linear_init None None]"
  have wf: "wf_tensor ?X" by (simp add: wf_tensor_def)
  have sh: "shape ?X = [2, Suc 1]" by simp
  have ne: "?cs \<noteq> []" by simp
  have rs: "rows ?X = [[0.5, 0], [0.7, 0]]"
    by code_simp
  have lab: "labels_ok (length ?cs) (rows ?X)"
    unfolding rs by (simp add: labels_ok_def label_def truncate_def)
  have g0: "label_group ?X 0 = Tensor [2, 1] [0.5, 0.7]" and g1: "label_group ?X 1 = Tensor [0, 1] []"
    by code_simp+
  have up: "[0..<length ?cs] = [0, 1]"
    by (simp add: upt_rec)
  from Switched_calls_every_child_once[OF wf sh ne lab]
  have "switch_calls ?cs ?X = Inr (map (\<lambda>g. (label_group ?X g, ?cs ! g)) [0..<length ?cs])"
    by (rule conjunct1)
  then have 1: "switch_calls ?cs ?X =
     Inr [(Tensor [2, 1] [0.5, 0.7], Constant_init (Some (Tensor [1] [1]))),
          (Tensor [0, 1] [], Linear_init None None)]"
    unfolding up using g0 g1 by simp
  have 2: "call (Linear_init None None) (Tensor [0, 1] []) = Inr (Tensor [0, 1] [])"
    by code_simp
  have 3: "call (SwitchedMeanFunction ?cs) ?X = Inr (Tensor [2, 1] [1, 1])"
    by code_simp
  from 1 2 3 show ?thesis by (intro conjI)
qed

end
